theory Spec2Isabelle
  imports Main "HOL-Library.AList"
begin

section \<open>Overview\<close>

text \<open>
  A model of \<open>mod.ts\<close>, the Oak middleware that validates and stores uploaded files.
  The class \<open>FileUploader\<close> becomes a record of its fields and every method a function
  that takes the instance and the outside world and returns them updated. An exception
  is a value of type \<open>error\<close>; what the module does to the outside (reading a file,
  creating a directory, writing a file, calling \<open>onError\<close> or \<open>next\<close>) is an event
  appended to a trace. Requests are handled one after the other, and every \<open>await\<close>
  is an ordinary call. The file system may refuse a directory or a write; the two
  callbacks return. Paths are POSIX paths.
\<close>

section \<open>Strings and numbers as the JavaScript runtime renders them\<close>

text \<open>
  Strings are lists of \<^typ>\<open>char\<close>; a character stands for a code unit below 256.
  A JavaScript number is a double. The numbers of this module are integers (\<^typ>\<open>nat\<close>
  for a \<open>File.size\<close>, \<^typ>\<open>int\<close> for a configured limit or a parsed header), so a
  number is carried as the integer the double holds: \<open>to_double\<close> rounds an integer to
  the nearest double (ties to even), \<open>representable\<close> says that an integer is a double
  as it stands, and \<open>plain_number\<close> that it is one that \<open>toString\<close> prints with all
  its decimal digits (below \<open>10^21\<close> in magnitude).
\<close>

function bit_length :: "int \<Rightarrow> nat" where
  "bit_length n = (if n \<le> 0 then 0 else Suc (bit_length (n div 2)))"
  by pat_completeness auto
termination
  by (relation "measure nat") auto

declare bit_length.simps [simp del]

definition to_double :: "int \<Rightarrow> int" where
  "to_double n =
     (if \<bar>n\<bar> < 9007199254740992 then n
      else
        let e = bit_length \<bar>n\<bar> - 53;
            q = \<bar>n\<bar> div 2 ^ e;
            r = \<bar>n\<bar> mod 2 ^ e
        in sgn n * ((if 2 * r > 2 ^ e \<or> (2 * r = 2 ^ e \<and> odd q) then q + 1 else q) * 2 ^ e))"

definition representable :: "int \<Rightarrow> bool" where
  "representable i = (to_double i = i)"

definition plain_number :: "int \<Rightarrow> bool" where
  "plain_number i = (representable i \<and> \<bar>i\<bar> < 1000000000000000000000)"

definition digit_char :: "nat \<Rightarrow> char" where
  "digit_char d = ''0123456789'' ! (d mod 10)"

text \<open>\<open>Number.prototype.toString()\<close> on a non-negative integer: its decimal digits.\<close>

fun show_nat :: "nat \<Rightarrow> string" where
  "show_nat n = (if n < 10 then [digit_char n] else show_nat (n div 10) @ [digit_char (n mod 10)])"

declare show_nat.simps [simp del]

definition show_int :: "int \<Rightarrow> string" where
  "show_int i = (if i < 0 then CHR ''-'' # show_nat (nat (- i)) else show_nat (nat i))"

text \<open>\<open>s.padStart(2, "0")\<close>.\<close>

definition padStart2 :: "string \<Rightarrow> string" where
  "padStart2 s = replicate (2 - length s) CHR ''0'' @ s"

text \<open>\<open>s.split(c)\<close> for a one-character separator: never the empty array.\<close>

fun split_on :: "char \<Rightarrow> string \<Rightarrow> string list" where
  "split_on c [] = [[]]"
| "split_on c (x # xs) =
     (if x = c then [] # split_on c xs
      else (case split_on c xs of [] \<Rightarrow> [[x]] | w # ws \<Rightarrow> (x # w) # ws))"

text \<open>\<open>xs.join(sep)\<close>.\<close>

fun join_with :: "string \<Rightarrow> string list \<Rightarrow> string" where
  "join_with sep [] = []"
| "join_with sep [x] = x"
| "join_with sep (x # y # ys) = x @ sep @ join_with sep (y # ys)"

text \<open>\<open>filename.split(".").pop() ?? ""\<close> (line 215): \<open>pop\<close> gives the last piece, and
  \<open>undefined\<close> only on an empty array.\<close>

definition extension_of :: "string \<Rightarrow> string" where
  "extension_of filename =
     (case split_on CHR ''.'' filename of [] \<Rightarrow> [] | p # ps \<Rightarrow> last (p # ps))"

text \<open>\<open>s.replace(pat, rep)\<close> with a string pattern: the first occurrence only, anywhere
  in \<open>s\<close>.\<close>

fun replace_first :: "string \<Rightarrow> string \<Rightarrow> string \<Rightarrow> string" where
  "replace_first pat rep [] = (if pat = [] then rep else [])"
| "replace_first pat rep (c # cs) =
     (if take (length pat) (c # cs) = pat then rep @ drop (length pat) (c # cs)
      else c # replace_first pat rep cs)"

text \<open>\<open>s.replace(/\\/g, "/")\<close> (lines 245 to 248): every backslash becomes a slash.\<close>

definition backslash_to_slash :: "string \<Rightarrow> string" where
  "backslash_to_slash s = map (\<lambda>c. if c = CHR 0x5C then CHR ''/'' else c) s"

text \<open>Lines 249 to 251.\<close>

definition ensure_leading_slash :: "string \<Rightarrow> string" where
  "ensure_leading_slash s = (if take 1 s = ''/'' then s else CHR ''/'' # s)"

text \<open>\<open>encodeURI\<close>: the characters it leaves alone, and the percent-encoding of the UTF-8
  bytes of every other one (upper-case hexadecimal).\<close>

definition uri_unescaped :: "string" where
  "uri_unescaped =
     ''ABCDEFGHIJKLMNOPQRSTUVWXYZabcdefghijklmnopqrstuvwxyz0123456789;,/?:@&=+$-_.!~*()#''
       @ [CHR 0x27]"

definition hex_digit :: "nat \<Rightarrow> char" where
  "hex_digit d = ''0123456789ABCDEF'' ! (d mod 16)"

definition percent :: "nat \<Rightarrow> string" where
  "percent b = [CHR ''%'', hex_digit (b div 16), hex_digit (b mod 16)]"

definition encode_char :: "char \<Rightarrow> string" where
  "encode_char c =
     (let n = (of_char c :: nat)
      in if c \<in> set uri_unescaped then [c]
         else if n < 128 then percent n
         else percent (192 + n div 64) @ percent (128 + n mod 64))"

definition encodeURI :: "string \<Rightarrow> string" where
  "encodeURI s = concat (map encode_char s)"

text \<open>\<open>parseInt(s)\<close> with no radix: leading white space, an optional sign, an optional
  \<open>0x\<close> prefix, then the longest run of digits; \<open>NaN\<close> (here \<open>None\<close>) when that run is
  empty. The result is a double: the value of the digits, rounded. (Beyond the largest
  double the result is \<open>Infinity\<close>; the rounded integer stands for it, being above
  every number a limit can hold.)\<close>

definition is_js_space :: "char \<Rightarrow> bool" where
  "is_js_space c = ((of_char c :: nat) \<in> {9, 10, 11, 12, 13, 32, 160})"

definition digit_value :: "char \<Rightarrow> nat" where
  "digit_value c =
     (let n = (of_char c :: nat)
      in if 48 \<le> n \<and> n \<le> 57 then n - 48
         else if 97 \<le> n \<and> n \<le> 122 then n - 87
         else if 65 \<le> n \<and> n \<le> 90 then n - 55
         else 36)"

definition parseInt :: "string \<Rightarrow> int option" where
  "parseInt s =
     (let s1 = dropWhile is_js_space s;
          neg = (take 1 s1 = ''-'');
          s2 = (if take 1 s1 = ''-'' \<or> take 1 s1 = ''+'' then drop 1 s1 else s1);
          hex = (take 2 s2 = ''0x'' \<or> take 2 s2 = ''0X'');
          radix = (if hex then 16 else 10 :: int);
          s3 = (if hex then drop 2 s2 else s2);
          ds = takeWhile (\<lambda>c. int (digit_value c) < radix) s3;
          v = to_double (foldl (\<lambda>a c. a * radix + int (digit_value c)) 0 ds)
      in if ds = [] then None else Some (if neg then - v else v))"

section \<open>Paths: \<open>join\<close> of the standard library, on a POSIX host\<close>

text \<open>
  \<open>join\<close> (imported on line 4) is not part of the repository. It is modelled as the
  library documents it for POSIX paths: the non-empty arguments are glued with \<open>/\<close> and
  the result is normalised, that is, empty and \<open>.\<close> segments are dropped and a \<open>..\<close>
  segment removes the segment before it (or is kept in front of a relative path).
\<close>

fun normalizeString :: "bool \<Rightarrow> string list \<Rightarrow> string list \<Rightarrow> string list" where
  "normalizeString allowAboveRoot res [] = res"
| "normalizeString allowAboveRoot res (s # ss) =
     (if s = [] \<or> s = ''.'' then normalizeString allowAboveRoot res ss
      else if s = ''..'' then
        (if res \<noteq> [] \<and> last res \<noteq> ''..'' then normalizeString allowAboveRoot (butlast res) ss
         else if allowAboveRoot then normalizeString allowAboveRoot (res @ [''..'']) ss
         else normalizeString allowAboveRoot res ss)
      else normalizeString allowAboveRoot (res @ [s]) ss)"

definition normalize :: "string \<Rightarrow> string" where
  "normalize p =
     (if p = [] then ''.''
      else
        let isAbsolute = (hd p = CHR ''/'');
            trailingSeparator = (last p = CHR ''/'');
            body = join_with ''/'' (normalizeString (\<not> isAbsolute) [] (split_on CHR ''/'' p));
            body1 = (if body = [] \<and> \<not> isAbsolute then ''.'' else body);
            body2 = (if body1 \<noteq> [] \<and> trailingSeparator then body1 @ ''/'' else body1)
        in if isAbsolute then CHR ''/'' # body2 else body2)"

definition join :: "string list \<Rightarrow> string" where
  "join paths =
     (let joined = join_with ''/'' (filter (\<lambda>p. p \<noteq> []) paths)
      in if joined = [] then ''.'' else normalize joined)"

section \<open>Data model\<close>

text \<open>A \<open>File\<close> of the decoded form: its name, declared size, MIME type, and the bytes
  that \<open>arrayBuffer()\<close> yields.\<close>

record File =
  name_f :: string
  size_f :: nat
  type_f :: string
  bytes_f :: string

text \<open>\<open>ProcessedFile\<close> (lines 73 to 86); \<open>contents\<close> is \<open>None\<close> for \<open>null\<close>.\<close>

record ProcessedFile =
  filename :: string
  size_p :: nat
  type_p :: string
  contents :: "string option"
  uri :: string
  url :: string

text \<open>\<open>Required<UploadOptions>\<close> (lines 20 to 68). The \<open>onError\<close> callback is not a
  field here: calling it is an event of the trace below.\<close>

record UploadOptions =
  extensions :: "string list"
  maxSizeBytes :: int
  maxFileSizeBytes :: int
  saveFile :: bool
  readFile :: bool
  useCurrentDir :: bool
  useDateTimeSubDir :: bool

text \<open>What the caller passes to the constructor: every option may be left out.\<close>

record PartialUploadOptions =
  extensions_opt :: "string list option"
  maxSizeBytes_opt :: "int option"
  maxFileSizeBytes_opt :: "int option"
  saveFile_opt :: "bool option"
  readFile_opt :: "bool option"
  useCurrentDir_opt :: "bool option"
  useDateTimeSubDir_opt :: "bool option"

text \<open>The instance (lines 101 to 115): the two private fields \<open>validationErrors\<close> and
  \<open>result\<close> live on it, next to the path and the options. \<open>result.data\<close> is an
  association list in insertion order.\<close>

record FileUploader =
  path :: string
  options :: UploadOptions
  validationErrors :: "string list"
  result_data :: "(string \<times> ProcessedFile) list"

text \<open>What is thrown: an \<open>Error\<close> the module creates, or a failure of the file system
  (or of the body decoder) at the given path.\<close>

datatype error = Error string | IOFailure string

text \<open>The local time fields that \<open>new Date()\<close> exposes (\<open>getMonth\<close> counts from 0).\<close>

record date =
  getFullYear :: nat
  getMonth :: nat
  getDate :: nat
  getHours :: nat
  getMinutes :: nat
  getSeconds :: nat

text \<open>The host: the working directory, the identifiers \<open>crypto.randomUUID()\<close> yields
  (the n-th call), the clock (the n-th \<open>new Date()\<close>), and whether \<open>ensureDir\<close> and
  \<open>Deno.writeFile\<close> succeed at a path.\<close>

record env =
  cwd :: string
  randomUUID :: "nat \<Rightarrow> string"
  now :: "nat \<Rightarrow> date"
  ensureDir_ok :: "string \<Rightarrow> bool"
  writeFile_ok :: "string \<Rightarrow> bool"

text \<open>What the module does to the outside, in order.\<close>

datatype event =
    ArrayBuffer File
  | EnsureDir string
  | WriteFile string string
  | OnError error
  | Next

record world =
  uuid_calls :: nat
  date_calls :: nat
  trace :: "event list"

text \<open>An entry value of the decoded form (lines 172 to 181): a \<open>File\<close>, an array, or
  anything else (a string field).\<close>

datatype form_item = FileItem File | OtherItem

datatype form_value = FileValue File | ArrayValue "form_item list" | OtherValue

record request =
  hasBody :: bool
  contentLength :: "string option"
  contentType :: "string option"
  formData :: "error + (string \<times> form_value) list"

section \<open>The constructor\<close>

text \<open>\<open>defaultOptions\<close> (lines 104 to 113); \<open>Number.MAX_SAFE_INTEGER\<close> is \<open>2^53 - 1\<close>.\<close>

definition MAX_SAFE_INTEGER :: int where
  "MAX_SAFE_INTEGER = 9007199254740991"

definition defaultOptions :: UploadOptions where
  "defaultOptions =
     \<lparr>extensions = [], maxSizeBytes = MAX_SAFE_INTEGER, maxFileSizeBytes = MAX_SAFE_INTEGER,
      saveFile = True, readFile = False, useCurrentDir = True, useDateTimeSubDir = True\<rparr>"

definition or_default :: "'a option \<Rightarrow> 'a \<Rightarrow> 'a" where
  "or_default v d = (case v of None \<Rightarrow> d | Some x \<Rightarrow> x)"

text \<open>Lines 126 to 129, with the two field initialisers of lines 114 and 115.\<close>

definition new_FileUploader :: "string \<Rightarrow> PartialUploadOptions \<Rightarrow> FileUploader" where
  "new_FileUploader p opts =
     \<lparr>path = p,
      options =
        \<lparr>extensions = or_default (extensions_opt opts) (extensions defaultOptions),
         maxSizeBytes = or_default (maxSizeBytes_opt opts) (maxSizeBytes defaultOptions),
         maxFileSizeBytes = or_default (maxFileSizeBytes_opt opts) (maxFileSizeBytes defaultOptions),
         saveFile = or_default (saveFile_opt opts) (saveFile defaultOptions),
         readFile = or_default (readFile_opt opts) (readFile defaultOptions),
         useCurrentDir = or_default (useCurrentDir_opt opts) (useCurrentDir defaultOptions),
         useDateTimeSubDir = or_default (useDateTimeSubDir_opt opts) (useDateTimeSubDir defaultOptions)\<rparr>,
      validationErrors = [],
      result_data = []\<rparr>"

section \<open>\<open>saveFileToDisk\<close> and \<open>processFiles\<close>\<close>

text \<open>The directory chain of lines 277 to 285, for the date \<open>d\<close> and the identifier
  \<open>u\<close>.\<close>

definition subDirTree :: "date \<Rightarrow> string \<Rightarrow> string" where
  "subDirTree d u =
     join [show_nat (getFullYear d),
           padStart2 (show_nat (getMonth d + 1)),
           padStart2 (show_nat (getDate d)),
           padStart2 (show_nat (getHours d)),
           padStart2 (show_nat (getMinutes d)),
           padStart2 (show_nat (getSeconds d)),
           u]"

text \<open>Lines 269 to 300. The result is the path written, or the failure thrown by
  \<open>ensureDir\<close> or \<open>Deno.writeFile\<close>.\<close>

definition saveFileToDisk :: "env \<Rightarrow> FileUploader \<Rightarrow> File \<Rightarrow> world \<Rightarrow> (error + string) \<times> world" where
  "saveFileToDisk e this f w =
     (let uploadPath =
            (if useDateTimeSubDir (options this)
             then join [path this, subDirTree (now e (date_calls w)) (randomUUID e (uuid_calls w))]
             else path this);
          w1 =
            (if useDateTimeSubDir (options this)
             then w\<lparr>uuid_calls := uuid_calls w + 1, date_calls := date_calls w + 1\<rparr>
             else w);
          fullPath = (if useCurrentDir (options this) then join [cwd e, uploadPath] else uploadPath)
      in if \<not> ensureDir_ok e fullPath then (Inl (IOFailure fullPath), w1)
         else
           let filePath = join [fullPath, name_f f];
               w2 = w1\<lparr>trace := trace w1 @ [EnsureDir fullPath, ArrayBuffer f]\<rparr>
           in if \<not> writeFile_ok e filePath then (Inl (IOFailure filePath), w2)
              else (Inr filePath, w2\<lparr>trace := trace w2 @ [WriteFile filePath (bytes_f f)]\<rparr>))"

text \<open>The two messages pushed on \<open>validationErrors\<close> (lines 223 and 231).\<close>

definition extension_message :: "string \<Rightarrow> string \<Rightarrow> string list \<Rightarrow> string" where
  "extension_message extension fname exts =
     ''File extension '' @ extension @ '' in '' @ fname
       @ '' is not allowed. Allowed extentions: '' @ join_with '','' exts @ ''.''"

definition size_message :: "string \<Rightarrow> nat \<Rightarrow> int \<Rightarrow> string" where
  "size_message fname sz limit =
     ''File size exceeds limit. File: '' @ fname @ '', Size: '' @ show_nat sz
       @ '' bytes, Limit: '' @ show_int limit @ '' bytes. ''"

definition tempUploadsDir :: "env \<Rightarrow> string" where
  "tempUploadsDir e = join [cwd e, ''temp_uploads'']"

text \<open>Lines 245 to 252: the \<open>url\<close> computed from the saved path.\<close>

definition url_of_path :: "env \<Rightarrow> string \<Rightarrow> string" where
  "url_of_path e savedFilePath =
     encodeURI (ensure_leading_slash (backslash_to_slash (replace_first (cwd e) [] savedFilePath)))"

text \<open>One turn of the loop of lines 213 to 265, on the \<open>processedFile\<close> object that the
  whole loop shares. \<open>Inl\<close> is an exception leaving \<open>processFiles\<close>; a \<open>continue\<close>
  is \<open>Inr\<close> like the normal end of the turn.\<close>

definition processFiles_step ::
  "env \<Rightarrow> File \<Rightarrow> ProcessedFile \<Rightarrow> FileUploader \<Rightarrow> world
     \<Rightarrow> (error + ProcessedFile) \<times> FileUploader \<times> world" where
  "processFiles_step e f processedFile this w =
     (let fname = name_f f;
          extension = extension_of fname;
          pf1 = processedFile\<lparr>filename := fname, type_p := type_f f, size_p := size_f f\<rparr>
      in if extension = [] \<and> extension \<notin> set (extensions (options this)) then
           (Inr pf1,
            this\<lparr>validationErrors := validationErrors this
               @ [extension_message extension fname (extensions (options this))]\<rparr>,
            w)
         else if int (size_f f) > maxFileSizeBytes (options this) then
           (Inr pf1,
            this\<lparr>validationErrors := validationErrors this
               @ [size_message (name_f f) (size_f f) (maxFileSizeBytes (options this))]\<rparr>,
            w)
         else
           let pf2 = (if readFile (options this) then pf1\<lparr>contents := Some (bytes_f f)\<rparr> else pf1);
               w1 = (if readFile (options this) then w\<lparr>trace := trace w @ [ArrayBuffer f]\<rparr> else w)
           in if saveFile (options this) then
                (case saveFileToDisk e this f w1 of
                   (Inl err, w2) \<Rightarrow> (Inl err, this, w2)
                 | (Inr savedFilePath, w2) \<Rightarrow>
                     (Inr (pf2\<lparr>uri := savedFilePath, url := url_of_path e savedFilePath\<rparr>), this, w2))
              else
                let tempFilePath = join [tempUploadsDir e, randomUUID e (uuid_calls w1) @ ''_'' @ name_f f];
                    w2 = w1\<lparr>uuid_calls := uuid_calls w1 + 1, trace := trace w1 @ [ArrayBuffer f]\<rparr>
                in if \<not> writeFile_ok e tempFilePath then (Inl (IOFailure tempFilePath), this, w2)
                   else
                     (Inr (pf2\<lparr>uri := tempFilePath, url := []\<rparr>), this,
                      w2\<lparr>trace := trace w2 @ [WriteFile tempFilePath (bytes_f f)]\<rparr>))"

fun processFiles_loop ::
  "env \<Rightarrow> File list \<Rightarrow> ProcessedFile \<Rightarrow> FileUploader \<Rightarrow> world
     \<Rightarrow> (error + ProcessedFile) \<times> FileUploader \<times> world" where
  "processFiles_loop e [] processedFile this w = (Inr processedFile, this, w)"
| "processFiles_loop e (f # files) processedFile this w =
     (case processFiles_step e f processedFile this w of
        (Inl err, this1, w1) \<Rightarrow> (Inl err, this1, w1)
      | (Inr pf, this1, w1) \<Rightarrow> processFiles_loop e files pf this1 w1)"

text \<open>Lines 201 to 267.\<close>

definition processFiles ::
  "env \<Rightarrow> File list \<Rightarrow> FileUploader \<Rightarrow> world \<Rightarrow> (error + ProcessedFile) \<times> FileUploader \<times> world" where
  "processFiles e files this w =
     processFiles_loop e files
       \<lparr>filename = [], size_p = 0, type_p = [], contents = None, uri = [], url = []\<rparr> this w"

section \<open>\<open>handler\<close> and the middleware it returns\<close>

text \<open>Line 141: \<open>handler()\<close> itself only makes sure the temporary directory exists.\<close>

definition handler :: "env \<Rightarrow> world \<Rightarrow> error + world" where
  "handler e w =
     (if ensureDir_ok e (tempUploadsDir e)
      then Inr (w\<lparr>trace := trace w @ [EnsureDir (tempUploadsDir e)]\<rparr>)
      else Inl (IOFailure (tempUploadsDir e)))"

text \<open>A header value is falsy when it is absent or the empty string.\<close>

definition falsy :: "string option \<Rightarrow> bool" where
  "falsy v = (case v of None \<Rightarrow> True | Some s \<Rightarrow> s = [])"

definition is_line_terminator :: "char \<Rightarrow> bool" where
  "is_line_terminator c = (c = CHR 0x0A \<or> c = CHR 0x0D)"

text \<open>\<open>contentType.match(/boundary=(.*)$/)\<close> (lines 158 to 161), giving the captured
  group: the leftmost \<open>boundary=\<close> that is followed, up to the end of the string, by no
  line terminator.\<close>

fun boundary_of :: "string \<Rightarrow> string option" where
  "boundary_of [] = None"
| "boundary_of (c # cs) =
     (if take 9 (c # cs) = ''boundary='' \<and> list_all (\<lambda>x. \<not> is_line_terminator x) (drop 9 (c # cs))
      then Some (drop 9 (c # cs))
      else boundary_of cs)"

definition too_large :: "string \<Rightarrow> int \<Rightarrow> bool" where
  "too_large cl limit = (case parseInt cl of None \<Rightarrow> False | Some n \<Rightarrow> n > limit)"

definition total_size_message :: "string \<Rightarrow> int \<Rightarrow> string" where
  "total_size_message cl limit =
     ''Total upload size exceeded. Uploaded: '' @ cl @ ''. Allowed maximum: '' @ show_int limit"

definition invalid_form_message :: string where
  "invalid_form_message =
     ''Invalid form data. The request body should be encoded as '' @ [CHR 0x27]
       @ ''multipart/form-data'' @ [CHR 0x27] @ ''.''"

text \<open>Lines 146 to 167: the checks made before the body is decoded. \<open>Some\<close> is the error
  thrown.\<close>

definition precondition_error :: "FileUploader \<Rightarrow> request \<Rightarrow> error option" where
  "precondition_error this r =
     (if \<not> hasBody r then Some (Error ''Request is missing a body'')
      else if falsy (contentLength r) then Some (Error ''Content length is 0'')
      else if falsy (contentType r) then Some (Error ''Content type is missing'')
      else if too_large (the (contentLength r)) (maxSizeBytes (options this)) then
        Some (Error (total_size_message (the (contentLength r)) (maxSizeBytes (options this))))
      else if falsy (boundary_of (the (contentType r))) then Some (Error invalid_form_message)
      else None)"

text \<open>\<open>value.filter((f) => f instanceof File)\<close> (line 176).\<close>

fun files_of :: "form_item list \<Rightarrow> File list" where
  "files_of [] = []"
| "files_of (FileItem f # xs) = f # files_of xs"
| "files_of (OtherItem # xs) = files_of xs"

text \<open>The loop of lines 172 to 181 over the entries of the form.\<close>

fun process_entries ::
  "env \<Rightarrow> (string \<times> form_value) list \<Rightarrow> FileUploader \<Rightarrow> world \<Rightarrow> error option \<times> FileUploader \<times> world" where
  "process_entries e [] this w = (None, this, w)"
| "process_entries e ((key, FileValue f) # rest) this w =
     (case processFiles e [f] this w of
        (Inl err, this1, w1) \<Rightarrow> (Some err, this1, w1)
      | (Inr pf, this1, w1) \<Rightarrow>
          process_entries e rest (this1\<lparr>result_data := AList.update key pf (result_data this1)\<rparr>) w1)"
| "process_entries e ((key, ArrayValue items) # rest) this w =
     (if length (files_of items) > 0 then
        (case processFiles e (files_of items) this w of
           (Inl err, this1, w1) \<Rightarrow> (Some err, this1, w1)
         | (Inr pf, this1, w1) \<Rightarrow>
             process_entries e rest (this1\<lparr>result_data := AList.update key pf (result_data this1)\<rparr>) w1)
      else process_entries e rest this w)"
| "process_entries e ((key, OtherValue) # rest) this w = process_entries e rest this w"

definition aggregated_message :: "string list \<Rightarrow> string" where
  "aggregated_message errs = ''Unprocessable Entity: '' @ join_with '' '' errs"

text \<open>The \<open>try\<close> block (lines 144 to 190). The first component is the error thrown, if
  any; the second is what \<open>ctx.state.uploadedFiles\<close> was set to, if it was.\<close>

definition try_block ::
  "env \<Rightarrow> request \<Rightarrow> FileUploader \<Rightarrow> world
     \<Rightarrow> error option \<times> (string \<times> ProcessedFile) list option \<times> FileUploader \<times> world" where
  "try_block e r this w =
     (case precondition_error this r of
        Some err \<Rightarrow> (Some err, None, this, w)
      | None \<Rightarrow>
          (case formData r of
             Inl err \<Rightarrow> (Some err, None, this, w)
           | Inr entries \<Rightarrow>
               (case process_entries e entries this w of
                  (Some err, this1, w1) \<Rightarrow> (Some err, None, this1, w1)
                | (None, this1, w1) \<Rightarrow>
                    if length (validationErrors this1) > 0
                    then (Some (Error (aggregated_message (validationErrors this1))), None, this1, w1)
                    else (None, Some (result_data this1), this1, w1\<lparr>trace := trace w1 @ [Next]\<rparr>))))"

text \<open>The middleware (lines 143 to 196): the \<open>try\<close> block, the \<open>catch\<close> that hands the
  error to \<open>onError\<close>, and the \<open>next()\<close> after both. The callbacks \<open>onError\<close> and
  \<open>next\<close> are events; they are taken to return.\<close>

definition middleware ::
  "env \<Rightarrow> request \<Rightarrow> FileUploader \<Rightarrow> world
     \<Rightarrow> (string \<times> ProcessedFile) list option \<times> FileUploader \<times> world" where
  "middleware e r this w =
     (case try_block e r this w of
        (Some err, uploadedFiles, this1, w1) \<Rightarrow>
          (uploadedFiles, this1, w1\<lparr>trace := trace w1 @ [OnError err, Next]\<rparr>)
      | (None, uploadedFiles, this1, w1) \<Rightarrow>
          (uploadedFiles, this1, w1\<lparr>trace := trace w1 @ [Next]\<rparr>))"

section \<open>Concrete inputs\<close>

text \<open>A host whose working directory is \<open>/app\<close>, whose clock shows 26 January 2025,
  18:23:08, whose identifiers differ in their last digit, and whose file system accepts
  every write.\<close>

definition host :: env where
  "host =
     \<lparr>cwd = ''/app'',
      randomUUID = (\<lambda>n. ''5b053289-28b2-4233-ae0c-09319f56800'' @ show_nat n),
      now = (\<lambda>n. \<lparr>getFullYear = 2025, getMonth = 0, getDate = 26,
                     getHours = 18, getMinutes = 23, getSeconds = 8\<rparr>),
      ensureDir_ok = (\<lambda>p. True),
      writeFile_ok = (\<lambda>p. True)\<rparr>"

definition idle :: world where
  "idle = \<lparr>uuid_calls = 0, date_calls = 0, trace = []\<rparr>"

definition no_options :: PartialUploadOptions where
  "no_options =
     \<lparr>extensions_opt = None, maxSizeBytes_opt = None, maxFileSizeBytes_opt = None,
      saveFile_opt = None, readFile_opt = None, useCurrentDir_opt = None,
      useDateTimeSubDir_opt = None\<rparr>"

text \<open>The configuration of the scenarios: \<open>{extensions: ["jpg"], maxFileSizeBytes: 1000}\<close>.\<close>

definition jpg_uploader :: FileUploader where
  "jpg_uploader =
     new_FileUploader ''uploads''
       (no_options\<lparr>extensions_opt := Some [''jpg''], maxFileSizeBytes_opt := Some 1000\<rparr>)"

text \<open>The same base path with \<open>{saveFile: false}\<close> and nothing else.\<close>

definition temp_uploader :: FileUploader where
  "temp_uploader = new_FileUploader ''uploads'' (no_options\<lparr>saveFile_opt := Some False\<rparr>)"

definition jpeg :: "string \<Rightarrow> nat \<Rightarrow> File" where
  "jpeg n sz = \<lparr>name_f = n, size_f = sz, type_f = ''image/jpeg'', bytes_f = ''data''\<rparr>"

definition upload :: "(string \<times> form_value) list \<Rightarrow> request" where
  "upload entries =
     \<lparr>hasBody = True, contentLength = Some ''500'',
      contentType = Some ''multipart/form-data; boundary=xYz'', formData = Inr entries\<rparr>"

text \<open>The same host with a file system on which every write fails, and an uploader with
  the base path \<open>data/app/up\<close> and \<open>{useCurrentDir: false}\<close>.\<close>

definition full_disk :: env where
  "full_disk = host\<lparr>writeFile_ok := (\<lambda>p. False)\<rparr>"


section \<open>Notions used in the statements\<close>

text \<open>\<open>occurs pat s\<close>: the string \<open>pat\<close> occurs somewhere in \<open>s\<close>.\<close>

fun occurs :: "string \<Rightarrow> string \<Rightarrow> bool" where
  "occurs pat [] = (pat = [])"
| "occurs pat (c # cs) = (take (length pat) (c # cs) = pat \<or> occurs pat cs)"

text \<open>The two rejections of the loop body: the condition of line 221 and the one of
  line 229. A file is accepted when neither holds.\<close>

definition extension_rejected :: "UploadOptions \<Rightarrow> File \<Rightarrow> bool" where
  "extension_rejected opts f =
     (extension_of (name_f f) = [] \<and> extension_of (name_f f) \<notin> set (extensions opts))"

definition accepted :: "UploadOptions \<Rightarrow> File \<Rightarrow> bool" where
  "accepted opts f = (\<not> extension_rejected opts f \<and> int (size_f f) \<le> maxFileSizeBytes opts)"

text \<open>The files that one entry of the form carries, and all the files of the form under
  one field name, in the order the form yields them.\<close>

fun files_in :: "form_value \<Rightarrow> File list" where
  "files_in (FileValue f) = [f]"
| "files_in (ArrayValue items) = files_of items"
| "files_in OtherValue = []"

fun files_under :: "string \<Rightarrow> (string \<times> form_value) list \<Rightarrow> File list" where
  "files_under k [] = []"
| "files_under k ((key, v) # rest) = (if key = k then files_in v else []) @ files_under k rest"

text \<open>The message that a rejected file leaves on the error list, in full: the one of
  the extension check when that check rejects the file, the one of the size check
  otherwise.\<close>

definition rejection_message :: "UploadOptions \<Rightarrow> File \<Rightarrow> string" where
  "rejection_message opts f =
     (if extension_rejected opts f
      then ''File extension '' @ extension_of (name_f f) @ '' in '' @ name_f f
             @ '' is not allowed. Allowed extentions: '' @ join_with '','' (extensions opts) @ ''.''
      else ''File size exceeds limit. File: '' @ name_f f @ '', Size: '' @ show_nat (size_f f)
             @ '' bytes, Limit: '' @ show_int (maxFileSizeBytes opts) @ '' bytes. '')"

text \<open>The events of reading and storing a file, as opposed to the two callbacks.\<close>

fun file_event :: "event \<Rightarrow> bool" where
  "file_event (ArrayBuffer f) = True"
| "file_event (EnsureDir p) = True"
| "file_event (WriteFile p b) = True"
| "file_event (OnError err) = False"
| "file_event Next = False"

text \<open>A form as \<open>Array.from(formData)\<close> yields it: every value is a \<open>File\<close> or a
  string, never an array; a field with several files is several entries with the same
  key.\<close>

fun is_array :: "form_value \<Rightarrow> bool" where
  "is_array (FileValue f) = False"
| "is_array (ArrayValue items) = True"
| "is_array OtherValue = False"

definition decoded :: "(string \<times> form_value) list \<Rightarrow> bool" where
  "decoded entries = list_all (\<lambda>entry. \<not> is_array (snd entry)) entries"



text \<open>Paths as lists of segments. \<open>segments p\<close> are the non-empty pieces of \<open>p\<close> between
  slashes; \<open>dot_free p\<close> says that none of them is \<open>.\<close> or \<open>..\<close>; a \<open>segment\<close> is a
  string that is exactly one such piece; \<open>render\<close> writes segments as a path.\<close>

definition segments :: "string \<Rightarrow> string list" where
  "segments p = filter (\<lambda>s. s \<noteq> []) (split_on CHR ''/'' p)"

definition dot_free :: "string \<Rightarrow> bool" where
  "dot_free p = list_all (\<lambda>s. s \<noteq> ''.'' \<and> s \<noteq> ''..'') (split_on CHR ''/'' p)"

definition segment :: "string \<Rightarrow> bool" where
  "segment s = (s \<noteq> [] \<and> CHR ''/'' \<notin> set s \<and> s \<noteq> ''.'' \<and> s \<noteq> ''..'')"

definition render :: "bool \<Rightarrow> string list \<Rightarrow> string" where
  "render absolute xs = (if absolute then ''/'' else []) @ join_with ''/'' xs"

text \<open>A working directory as \<open>Deno.cwd()\<close> gives it (absolute, single slashes, no dot
  segment, no slash at the end except for the root), and a base path in the same normal
  form, absolute or relative, with at least one segment.\<close>

definition normal_absolute :: "string \<Rightarrow> bool" where
  "normal_absolute p = (p = render True (segments p) \<and> dot_free p)"







text \<open>The temporary name in the words of the specification:
  \<open>{unique-id}_{original filename}\<close> in the temporary directory.\<close>

definition layout_temp :: "env \<Rightarrow> string \<Rightarrow> string \<Rightarrow> string" where
  "layout_temp e u fname = tempUploadsDir e @ ''/'' @ u @ ''_'' @ fname"




section \<open>Splitting and joining\<close>

lemma split_on_not_Nil [simp]: "split_on c s \<noteq> []"
  by (induction s) (auto split: list.splits)

lemma split_on_append: "split_on c (a @ c # b) = split_on c a @ split_on c b"
  by (induction a) (auto split: list.splits)

lemma split_on_free: "c \<notin> set s \<Longrightarrow> split_on c s = [s]"
  by (induction s) (auto split: list.splits)

lemma split_on_pieces: "s \<in> set (split_on c p) \<Longrightarrow> c \<notin> set s"
  by (induction p arbitrary: s) (auto split: list.splits if_splits)

lemma split_on_chars: "s \<in> set (split_on c p) \<Longrightarrow> set s \<subseteq> set p"
proof (induction p arbitrary: s)
  case Nil
  then show ?case by simp
next
  case (Cons a p)
  show ?case
  proof (cases "a = c")
    case True
    with Cons show ?thesis by auto
  next
    case False
    obtain w ws where sp: "split_on c p = w # ws"
      using split_on_not_Nil [of c p] by (cases "split_on c p") auto
    with Cons.IH have "set w \<subseteq> set p" and "\<And>t. t \<in> set ws \<Longrightarrow> set t \<subseteq> set p"
      by simp_all
    with False sp Cons.prems show ?thesis by auto
  qed
qed

lemma join_with_Cons: "join_with sep (w # ws) = w @ (if ws = [] then [] else sep @ join_with sep ws)"
  by (cases ws) simp_all

lemma join_with_append:
  "xs \<noteq> [] \<Longrightarrow> ys \<noteq> [] \<Longrightarrow> join_with sep (xs @ ys) = join_with sep xs @ sep @ join_with sep ys"
  by (induction xs) (auto simp: join_with_Cons)

lemma join_with_last:
  "xs \<noteq> [] \<Longrightarrow> last xs \<noteq> [] \<Longrightarrow> join_with sep xs \<noteq> [] \<and> last (join_with sep xs) = last (last xs)"
  by (induction xs) (auto simp: join_with_Cons)

lemma join_with_split: "join_with [c] (split_on c s) = s"
  by (induction s) (auto simp: join_with_Cons split: list.splits)

lemma split_on_join_with:
  "ps \<noteq> [] \<Longrightarrow> split_on c (join_with [c] ps) = concat (map (split_on c) ps)"
proof (induction ps)
  case Nil
  then show ?case by simp
next
  case (Cons p ps)
  show ?case
  proof (cases ps)
    case Nil
    then show ?thesis by simp
  next
    case (Cons q qs)
    with Cons.IH have "split_on c (join_with [c] ps) = concat (map (split_on c) ps)" by simp
    with Cons show ?thesis using split_on_append [of c p "join_with [c] ps"] by simp
  qed
qed

section \<open>Normal paths\<close>

lemma normalizeString_dot_free:
  "list_all (\<lambda>s. s \<noteq> ''.'' \<and> s \<noteq> ''..'') ss \<Longrightarrow>
   normalizeString allow res ss = res @ filter (\<lambda>s. s \<noteq> []) ss"
  by (induction ss arbitrary: res) auto

lemma normalize_dot_free:
  assumes "p \<noteq> []" and "dot_free p" and "last p \<noteq> CHR ''/''" and "segments p \<noteq> []"
  shows "normalize p = (if hd p = CHR ''/'' then ''/'' else []) @ join_with ''/'' (segments p)"
proof -
  have n: "normalizeString a [] (split_on CHR ''/'' p) = segments p" for a
    using assms(2) by (simp add: normalizeString_dot_free dot_free_def segments_def)
  have "join_with ''/'' (segments p) \<noteq> []"
    using assms(4) by (cases "segments p") (auto simp: join_with_Cons segments_def filter_eq_Cons_iff)
  with assms(1,3) n show ?thesis
    by (simp add: normalize_def Let_def)
qed

lemma segments_append: "segments (a @ CHR ''/'' # b) = segments a @ segments b"
  by (simp add: segments_def split_on_append)

lemma dot_free_append: "dot_free (a @ CHR ''/'' # b) = (dot_free a \<and> dot_free b)"
  by (simp add: dot_free_def split_on_append)

lemma segments_are_segments: "dot_free p \<Longrightarrow> list_all segment (segments p)"
  by (auto simp: dot_free_def segments_def segment_def list_all_iff dest: split_on_pieces)

lemma segment_split: "segment s \<Longrightarrow> split_on CHR ''/'' s = [s]"
  by (simp add: segment_def split_on_free)

lemma split_join_segments:
  "list_all segment xs \<Longrightarrow> xs \<noteq> [] \<Longrightarrow> split_on CHR ''/'' (join_with ''/'' xs) = xs"
proof -
  assume a: "list_all segment xs" and b: "xs \<noteq> []"
  from a have "concat (map (split_on CHR ''/'') xs) = xs"
    by (induction xs) (simp_all add: segment_split)
  with b show ?thesis using split_on_join_with [of xs "CHR ''/''"] by simp
qed

lemma split_render:
  "list_all segment xs \<Longrightarrow> xs \<noteq> [] \<Longrightarrow>
   split_on CHR ''/'' (render a xs) = (if a then [[]] else []) @ xs"
  using split_on_append [of "CHR ''/''" "[]" "join_with ''/'' xs"]
  by (simp add: render_def split_join_segments)

lemma segment_filter: "list_all segment xs \<Longrightarrow> filter (\<lambda>s. s \<noteq> []) xs = xs"
  by (induction xs) (simp_all add: segment_def)

lemma segments_render: "list_all segment xs \<Longrightarrow> xs \<noteq> [] \<Longrightarrow> segments (render a xs) = xs"
  by (simp add: segments_def split_render segment_filter)

lemma dot_free_render: "list_all segment xs \<Longrightarrow> xs \<noteq> [] \<Longrightarrow> dot_free (render a xs)"
  by (auto simp: dot_free_def split_render list_all_iff segment_def)

lemma render_last:
  assumes "list_all segment xs" and "xs \<noteq> []"
  shows "render a xs \<noteq> []" and "last (render a xs) \<noteq> CHR ''/''"
proof -
  from assms have l: "segment (last xs)" by (simp add: list_all_iff)
  then have "last xs \<noteq> []" and "last (last xs) \<noteq> CHR ''/''"
    by (auto simp: segment_def dest: last_in_set)
  with assms(2) join_with_last [of xs "''/''"]
  show "render a xs \<noteq> []" and "last (render a xs) \<noteq> CHR ''/''"
    by (auto simp: render_def)
qed

lemma render_hd:
  assumes "list_all segment xs" and "xs \<noteq> []"
  shows "(hd (render a xs) = CHR ''/'') = a"
proof -
  obtain x ys where xs: "xs = x # ys" using assms(2) by (cases xs) auto
  with assms(1) have "x \<noteq> []" and "hd x \<noteq> CHR ''/''"
    by (auto simp: segment_def dest: hd_in_set)
  with xs show ?thesis by (cases x) (auto simp: render_def join_with_Cons)
qed

lemma render_append:
  "ws \<noteq> [] \<Longrightarrow> xs \<noteq> [] \<Longrightarrow> render b (ws @ xs) = render b ws @ ''/'' @ join_with ''/'' xs"
  by (simp add: render_def join_with_append)


lemma join_two:
  assumes "p \<noteq> []" and "dot_free p"
    and "q \<noteq> []" and "dot_free q" and "last q \<noteq> CHR ''/''" and "segments q \<noteq> []"
  shows "join [p, q] = render (hd p = CHR ''/'') (segments p @ segments q)"
proof -
  let ?j = "p @ CHR ''/'' # q"
  have j: "join [p, q] = normalize ?j"
    using assms(1,3) by (simp add: join_def)
  have 1: "?j \<noteq> []" by simp
  have 2: "dot_free ?j" using assms(2,4) by (simp add: dot_free_append)
  have 3: "last ?j \<noteq> CHR ''/''" using assms(3,5) by simp
  have s: "segments ?j = segments p @ segments q"
    by (simp add: segments_append)
  then have 4: "segments ?j \<noteq> []" using assms(6) by simp
  have h: "hd ?j = hd p" using assms(1) by simp
  show ?thesis
    unfolding j normalize_dot_free [OF 1 2 3 4] s h by (simp add: render_def)
qed

lemma join_render:
  assumes "p \<noteq> []" and "dot_free p" and "list_all segment xs" and "xs \<noteq> []"
  shows "join [p, render a xs] = render (hd p = CHR ''/'') (segments p @ xs)"
  using join_two [OF assms(1,2) render_last(1) [OF assms(3,4)] dot_free_render [OF assms(3,4)]
      render_last(2) [OF assms(3,4)], of a]
    assms(3,4)
  by (simp add: segments_render)


lemma segment_singleton: "segment s \<Longrightarrow> render False [s] = s"
  by (simp add: render_def)

lemma join_file:
  assumes "list_all segment zs" and "zs \<noteq> []" and "segment s"
  shows "join [render b zs, s] = render b (zs @ [s])"
proof -
  have "join [render b zs, render False [s]] = render (hd (render b zs) = CHR ''/'') (segments (render b zs) @ [s])"
    using assms(3) by (intro join_render render_last(1) dot_free_render assms(1,2)) simp_all
  then show ?thesis
    using assms by (simp add: segment_singleton segments_render render_hd)
qed

lemma normal_absolute_facts:
  assumes "normal_absolute p"
  shows "p \<noteq> []" and "hd p = CHR ''/''" and "dot_free p"
proof -
  from assms have p: "p = render True (segments p)" and d: "dot_free p"
    by (simp_all add: normal_absolute_def)
  from p have "p = CHR ''/'' # join_with ''/'' (segments p)" by (simp add: render_def)
  then show "p \<noteq> []" and "hd p = CHR ''/''" by (metis list.distinct(1), metis list.sel(1))
  from d show "dot_free p" .
qed


section \<open>Digits\<close>

lemma digit_char_digit: "digit_char d \<in> set ''0123456789''"
  unfolding digit_char_def by (rule nth_mem) simp

lemma show_nat_digits: "show_nat n \<noteq> [] \<and> set (show_nat n) \<subseteq> set ''0123456789''"
proof (induction n rule: show_nat.induct)
  case (1 n)
  show ?case
  proof (cases "n < 10")
    case True
    then show ?thesis using digit_char_digit [of n] by (subst show_nat.simps, subst (2) show_nat.simps) simp
  next
    case False
    with "1.IH" digit_char_digit [of "n mod 10"] show ?thesis
      by (subst show_nat.simps, subst (2) show_nat.simps) auto
  qed
qed





section \<open>One turn of the loop\<close>

lemma step_extension_rejected:
  assumes "extension_rejected (options this) f"
  shows "processFiles_step e f pf this w =
     (Inr (pf\<lparr>filename := name_f f, type_p := type_f f, size_p := size_f f\<rparr>),
      this\<lparr>validationErrors := validationErrors this
         @ [extension_message (extension_of (name_f f)) (name_f f) (extensions (options this))]\<rparr>,
      w)"
proof -
  have c: "(extension_of (name_f f) = [] \<and> extension_of (name_f f) \<notin> set (extensions (options this))) = True"
    using assms unfolding extension_rejected_def by blast
  show ?thesis
    by (simp only: processFiles_step_def Let_def c if_True)
qed

lemma step_size_rejected:
  assumes "\<not> extension_rejected (options this) f"
    and "int (size_f f) > maxFileSizeBytes (options this)"
  shows "processFiles_step e f pf this w =
     (Inr (pf\<lparr>filename := name_f f, type_p := type_f f, size_p := size_f f\<rparr>),
      this\<lparr>validationErrors := validationErrors this
         @ [size_message (name_f f) (size_f f) (maxFileSizeBytes (options this))]\<rparr>,
      w)"
proof -
  have c: "(extension_of (name_f f) = [] \<and> extension_of (name_f f) \<notin> set (extensions (options this))) = False"
    using assms(1) unfolding extension_rejected_def by blast
  from assms(2) have d: "(maxFileSizeBytes (options this) < int (size_f f)) = True"
    by simp
  show ?thesis
    by (simp only: processFiles_step_def Let_def c d if_True if_False)
qed

lemma step_accepted:
  assumes "accepted (options this) f"
  shows "processFiles_step e f pf this w =
     (let pf1 = pf\<lparr>filename := name_f f, type_p := type_f f, size_p := size_f f\<rparr>;
          pf2 = (if readFile (options this) then pf1\<lparr>contents := Some (bytes_f f)\<rparr> else pf1);
          w1 = (if readFile (options this) then w\<lparr>trace := trace w @ [ArrayBuffer f]\<rparr> else w)
      in if saveFile (options this) then
           (case saveFileToDisk e this f w1 of
              (Inl err, w2) \<Rightarrow> (Inl err, this, w2)
            | (Inr savedFilePath, w2) \<Rightarrow>
                (Inr (pf2\<lparr>uri := savedFilePath, url := url_of_path e savedFilePath\<rparr>), this, w2))
         else
           let tempFilePath = join [tempUploadsDir e, randomUUID e (uuid_calls w1) @ ''_'' @ name_f f];
               w2 = w1\<lparr>uuid_calls := uuid_calls w1 + 1, trace := trace w1 @ [ArrayBuffer f]\<rparr>
           in if \<not> writeFile_ok e tempFilePath then (Inl (IOFailure tempFilePath), this, w2)
              else (Inr (pf2\<lparr>uri := tempFilePath, url := []\<rparr>), this,
                    w2\<lparr>trace := trace w2 @ [WriteFile tempFilePath (bytes_f f)]\<rparr>))"
proof -
  have c: "(extension_of (name_f f) = [] \<and> extension_of (name_f f) \<notin> set (extensions (options this))) = False"
    using assms unfolding accepted_def extension_rejected_def by blast
  have d: "(maxFileSizeBytes (options this) < int (size_f f)) = False"
    using assms unfolding accepted_def by simp
  show ?thesis
    unfolding processFiles_step_def Let_def c d if_False
    by (rule refl)
qed

lemma step_keeps:
  assumes "processFiles_step e f pf this w = (r, this1, w1)"
  shows "options this1 = options this" and "path this1 = path this"
    and "result_data this1 = result_data this"
  using assms
  by (auto simp: processFiles_step_def Let_def split: if_splits prod.splits sum.splits)

lemma step_errors:
  assumes "processFiles_step e f pf this w = (r, this1, w1)" and "validationErrors this1 = []"
  shows "accepted (options this) f" and "validationErrors this = []"
proof -
  have "extension_rejected (options this) f \<or> \<not> int (size_f f) \<le> maxFileSizeBytes (options this)
          \<Longrightarrow> validationErrors this1 \<noteq> []"
    using assms(1) step_extension_rejected [of this f e pf w] step_size_rejected [of this f e pf w]
    by (cases "extension_rejected (options this) f") auto
  with assms(2) show a: "accepted (options this) f" by (auto simp: accepted_def)
  from assms show "validationErrors this = []"
    unfolding step_accepted [OF a] Let_def
    by (auto split: if_splits prod.splits sum.splits)
qed

lemma loop_keeps:
  assumes "processFiles_loop e fs pf this w = (r, this1, w1)"
  shows "options this1 = options this \<and> path this1 = path this \<and> result_data this1 = result_data this"
  using assms
proof (induction fs arbitrary: pf this w)
  case Nil
  then show ?case by simp
next
  case (Cons f fs)
  obtain r0 this0 w0 where s: "processFiles_step e f pf this w = (r0, this0, w0)"
    by (cases "processFiles_step e f pf this w") auto
  show ?case
  proof (cases r0)
    case (Inl err)
    with Cons.prems s step_keeps [OF s] show ?thesis by simp
  next
    case (Inr pf0)
    with Cons.prems s have "processFiles_loop e fs pf0 this0 w0 = (r, this1, w1)" by simp
    from Cons.IH [OF this] step_keeps [OF s] show ?thesis by simp
  qed
qed

lemma processFiles_keeps:
  assumes "processFiles e fs this w = (r, this1, w1)"
  shows "options this1 = options this" and "path this1 = path this"
    and "result_data this1 = result_data this"
  using loop_keeps [OF assms [unfolded processFiles_def]] by simp_all

lemma loop_errors:
  assumes "processFiles_loop e fs pf this w = (Inr pf1, this1, w1)" and "validationErrors this1 = []"
  shows "list_all (accepted (options this)) fs \<and> validationErrors this = []"
  using assms
proof (induction fs arbitrary: pf this w)
  case Nil
  then show ?case by simp
next
  case (Cons f fs)
  obtain r0 this0 w0 where s: "processFiles_step e f pf this w = (r0, this0, w0)"
    by (cases "processFiles_step e f pf this w") auto
  with Cons.prems(1) obtain pf0 where r0: "r0 = Inr pf0"
    and rest: "processFiles_loop e fs pf0 this0 w0 = (Inr pf1, this1, w1)"
    by (cases r0) auto
  from Cons.IH [OF rest Cons.prems(2)]
  have "list_all (accepted (options this0)) fs" and "validationErrors this0 = []" by simp_all
  with step_errors [OF s] step_keeps(1) [OF s] show ?case by simp
qed

lemma process_entries_Cons:
  "process_entries e ((key, v) # rest) this w =
     (if files_in v = [] then process_entries e rest this w
      else (case processFiles e (files_in v) this w of
              (Inl err, t, x) \<Rightarrow> (Some err, t, x)
            | (Inr pf, t, x) \<Rightarrow>
                process_entries e rest (t\<lparr>result_data := AList.update key pf (result_data t)\<rparr>) x))"
  by (cases v) simp_all

lemma entries_errors:
  assumes "process_entries e entries this w = (None, this1, w1)" and "validationErrors this1 = []"
  shows "list_all (accepted (options this)) (files_under k entries) \<and> validationErrors this = []"
  using assms
proof (induction entries arbitrary: this w)
  case Nil
  then show ?case by simp
next
  case (Cons entry rest)
  obtain key v where entry: "entry = (key, v)" by (cases entry)
  show ?case
  proof (cases "files_in v = []")
    case True
    with Cons.prems entry have "process_entries e rest this w = (None, this1, w1)"
      by (simp add: process_entries_Cons)
    from Cons.IH [OF this Cons.prems(2)] True entry show ?thesis by simp
  next
    case False
    obtain r0 t x where s: "processFiles e (files_in v) this w = (r0, t, x)"
      by (cases "processFiles e (files_in v) this w") auto
    let ?t = "\<lambda>pf. t\<lparr>result_data := AList.update key pf (result_data t)\<rparr>"
    from Cons.prems entry False s obtain pf0 where r0: "r0 = Inr pf0"
      and rest: "process_entries e rest (?t pf0) x = (None, this1, w1)"
      by (cases r0) (auto simp: process_entries_Cons)
    from Cons.IH [OF rest Cons.prems(2)]
    have 1: "list_all (accepted (options t)) (files_under k rest)" and 2: "validationErrors t = []"
      by simp_all
    from loop_errors [OF s [unfolded r0 processFiles_def] 2] processFiles_keeps(1) [OF s] 1 entry
    show ?thesis by simp
  qed
qed

lemma entries_append:
  "process_entries e (before @ rest) this w =
     (case process_entries e before this w of
        (Some err, t, x) \<Rightarrow> (Some err, t, x)
      | (None, t, x) \<Rightarrow> process_entries e rest t x)"
proof (induction before arbitrary: this w)
  case Nil
  show ?case by simp
next
  case (Cons entry before)
  obtain key v where entry: "entry = (key, v)" by (cases entry)
  show ?case
    unfolding entry append_Cons process_entries_Cons
    by (simp add: Cons.IH split: prod.splits sum.splits option.splits)
qed

lemma step_grows:
  assumes "processFiles_step e f pf this w = (r, this1, w1)"
  shows "\<exists>more. validationErrors this1 = validationErrors this @ more"
    and "\<exists>more. trace w1 = trace w @ more \<and> list_all file_event more"
  using assms
  by (auto simp: processFiles_step_def saveFileToDisk_def Let_def
      split: if_splits prod.splits sum.splits)

lemma loop_grows:
  assumes "processFiles_loop e fs pf this w = (r, this1, w1)"
  shows "(\<exists>more. validationErrors this1 = validationErrors this @ more)
       \<and> (\<exists>more. trace w1 = trace w @ more \<and> list_all file_event more)"
  using assms
proof (induction fs arbitrary: pf this w)
  case Nil
  then show ?case by simp
next
  case (Cons f fs)
  obtain r0 this0 w0 where s: "processFiles_step e f pf this w = (r0, this0, w0)"
    by (cases "processFiles_step e f pf this w") auto
  from step_grows [OF s] obtain m1 m2 where
    g: "validationErrors this0 = validationErrors this @ m1"
       "trace w0 = trace w @ m2" "list_all file_event m2" by blast
  show ?case
  proof (cases r0)
    case (Inl err)
    with Cons.prems s g show ?thesis by auto
  next
    case (Inr pf0)
    with Cons.prems s have "processFiles_loop e fs pf0 this0 w0 = (r, this1, w1)" by simp
    from Cons.IH [OF this] obtain m3 m4 where
      "validationErrors this1 = validationErrors this0 @ m3"
      "trace w1 = trace w0 @ m4" "list_all file_event m4" by blast
    with g show ?thesis by auto
  qed
qed

lemma entries_grows:
  assumes "process_entries e entries this w = (r, this1, w1)"
  shows "options this1 = options this \<and> path this1 = path this
       \<and> (\<exists>more. validationErrors this1 = validationErrors this @ more)
       \<and> (\<exists>more. trace w1 = trace w @ more \<and> list_all file_event more)"
  using assms
proof (induction entries arbitrary: this w)
  case Nil
  then show ?case by simp
next
  case (Cons entry rest)
  obtain key v where entry: "entry = (key, v)" by (cases entry)
  show ?case
  proof (cases "files_in v = []")
    case True
    with Cons.prems entry have "process_entries e rest this w = (r, this1, w1)"
      by (simp add: process_entries_Cons)
    from Cons.IH [OF this] show ?thesis .
  next
    case False
    obtain r0 t x where s: "processFiles e (files_in v) this w = (r0, t, x)"
      by (cases "processFiles e (files_in v) this w") auto
    note k = processFiles_keeps [OF s]
    from loop_grows [OF s [unfolded processFiles_def]] obtain m1 m2 where
      g: "validationErrors t = validationErrors this @ m1"
         "trace x = trace w @ m2" "list_all file_event m2" by blast
    show ?thesis
    proof (cases r0)
      case (Inl err)
      with Cons.prems entry False s k g show ?thesis
        by (auto simp: process_entries_Cons)
    next
      case (Inr pf0)
      let ?t = "t\<lparr>result_data := AList.update key pf0 (result_data t)\<rparr>"
      from Inr Cons.prems entry False s
      have "process_entries e rest ?t x = (r, this1, w1)" by (simp add: process_entries_Cons)
      from Cons.IH [OF this] obtain m3 m4 where
        "options this1 = options t" "path this1 = path t"
        "validationErrors this1 = validationErrors t @ m3"
        "trace w1 = trace x @ m4" "list_all file_event m4" by auto
      with k g show ?thesis by auto
    qed
  qed
qed

section \<open>Occurrences\<close>

lemma occurs_prefix: "occurs p (p @ s)"
proof (cases "p @ s")
  case Nil
  then show ?thesis by simp
next
  case (Cons a l)
  have "take (length p) (p @ s) = p" by simp
  then have "occurs p (a # l)" unfolding Cons by simp
  then show ?thesis unfolding Cons .
qed

lemma occurs_append: "occurs p (a @ p @ b)"
  by (induction a) (auto simp: occurs_prefix)

lemma occurs_appendI: "occurs p s \<Longrightarrow> occurs p (a @ s)"
  by (induction a) auto

lemma size_message_names:
  "occurs fname (size_message fname sz limit)"
  "occurs (show_nat sz) (size_message fname sz limit)"
  "occurs (show_int limit) (size_message fname sz limit)"
proof -
  show "occurs fname (size_message fname sz limit)"
    unfolding size_message_def by (rule occurs_append)
  have "occurs (show_nat sz) ((''File size exceeds limit. File: '' @ fname @ '', Size: '')
          @ show_nat sz @ ('' bytes, Limit: '' @ show_int limit @ '' bytes. ''))"
    by (rule occurs_append)
  then show "occurs (show_nat sz) (size_message fname sz limit)"
    by (simp add: size_message_def)
  have "occurs (show_int limit)
         ((''File size exceeds limit. File: '' @ fname @ '', Size: '' @ show_nat sz @ '' bytes, Limit: '')
          @ show_int limit @ '' bytes. '')"
    by (rule occurs_append)
  then show "occurs (show_int limit) (size_message fname sz limit)"
    by (simp add: size_message_def)
qed

lemma rejection_message_code:
  "rejection_message opts f =
     (if extension_rejected opts f
      then extension_message (extension_of (name_f f)) (name_f f) (extensions opts)
      else size_message (name_f f) (size_f f) (maxFileSizeBytes opts))"
  by (simp add: rejection_message_def extension_message_def size_message_def)

lemma step_oversize:
  assumes "int (size_f f) > maxFileSizeBytes (options this)"
  shows "processFiles_step e f pf this w =
           (Inr (pf\<lparr>filename := name_f f, type_p := type_f f, size_p := size_f f\<rparr>),
            this\<lparr>validationErrors := validationErrors this @ [rejection_message (options this) f]\<rparr>,
            w)"
proof (cases "extension_rejected (options this) f")
  case True
  then show ?thesis by (simp add: step_extension_rejected rejection_message_code)
next
  case False
  with assms show ?thesis by (simp add: step_size_rejected rejection_message_code)
qed

section \<open>The extension check (claims C1 and C3)\<close>

text \<open>
  Claim C1: a file whose extension is not in a non-empty \<open>extensions\<close> list gets a
  validation error naming the extension and the allowed set, is not stored, and makes the
  request fail.

  The condition of line 221 is \<open>!extension && !extensions.includes(extension)\<close>, so it
  only fires for an empty extension. With \<open>extensions = ["jpg"]\<close> the file \<open>a.png\<close> of
  500 bytes is written to disk, no error is recorded, the result is attached to the
  context, and \<open>onError\<close> is never called.
\<close>

theorem C1_png_is_stored_under_jpg_only:
  "middleware host (upload [(''photo'', FileValue (jpeg ''a.png'' 500))]) jpg_uploader idle =
     (Some [(''photo'',
        \<lparr>filename = ''a.png'', size_p = 500, type_p = ''image/jpeg'', contents = None,
         uri = ''/app/uploads/2025/01/26/18/23/08/5b053289-28b2-4233-ae0c-09319f568000/a.png'',
         url = ''/uploads/2025/01/26/18/23/08/5b053289-28b2-4233-ae0c-09319f568000/a.png''\<rparr>)],
      jpg_uploader\<lparr>result_data := [(''photo'',
        \<lparr>filename = ''a.png'', size_p = 500, type_p = ''image/jpeg'', contents = None,
         uri = ''/app/uploads/2025/01/26/18/23/08/5b053289-28b2-4233-ae0c-09319f568000/a.png'',
         url = ''/uploads/2025/01/26/18/23/08/5b053289-28b2-4233-ae0c-09319f568000/a.png''\<rparr>)]\<rparr>,
      \<lparr>uuid_calls = 1, date_calls = 1,
       trace =
         [EnsureDir ''/app/uploads/2025/01/26/18/23/08/5b053289-28b2-4233-ae0c-09319f568000'',
          ArrayBuffer (jpeg ''a.png'' 500),
          WriteFile ''/app/uploads/2025/01/26/18/23/08/5b053289-28b2-4233-ae0c-09319f568000/a.png'' ''data'',
          Next, Next]\<rparr>)"
  by code_simp

text \<open>
  Claim C3: a file name without an extension is checked with the empty string as its
  extension, so it is rejected whenever \<open>extensions\<close> is non-empty and accepted whenever
  it is empty.

  For a name without a dot, \<open>split(".").pop()\<close> is the whole name, which is not empty, so
  the check of line 221 does not fire: \<open>README\<close> is stored under \<open>extensions = ["jpg"]\<close>.
  For a name that ends in a dot the extension is empty and the check fires also when
  \<open>extensions\<close> is empty: \<open>notes.\<close> is rejected by an uploader with no options.
\<close>

theorem C3_names_without_extension:
  "middleware host (upload [(''doc'', FileValue (jpeg ''README'' 500))]) jpg_uploader idle =
     (Some [(''doc'',
        \<lparr>filename = ''README'', size_p = 500, type_p = ''image/jpeg'', contents = None,
         uri = ''/app/uploads/2025/01/26/18/23/08/5b053289-28b2-4233-ae0c-09319f568000/README'',
         url = ''/uploads/2025/01/26/18/23/08/5b053289-28b2-4233-ae0c-09319f568000/README''\<rparr>)],
      jpg_uploader\<lparr>result_data := [(''doc'',
        \<lparr>filename = ''README'', size_p = 500, type_p = ''image/jpeg'', contents = None,
         uri = ''/app/uploads/2025/01/26/18/23/08/5b053289-28b2-4233-ae0c-09319f568000/README'',
         url = ''/uploads/2025/01/26/18/23/08/5b053289-28b2-4233-ae0c-09319f568000/README''\<rparr>)]\<rparr>,
      \<lparr>uuid_calls = 1, date_calls = 1,
       trace =
         [EnsureDir ''/app/uploads/2025/01/26/18/23/08/5b053289-28b2-4233-ae0c-09319f568000'',
          ArrayBuffer (jpeg ''README'' 500),
          WriteFile ''/app/uploads/2025/01/26/18/23/08/5b053289-28b2-4233-ae0c-09319f568000/README'' ''data'',
          Next, Next]\<rparr>)
   \<and> extensions (options (new_FileUploader ''uploads'' no_options)) = []
   \<and> middleware host (upload [(''doc'', FileValue (jpeg ''notes.'' 500))])
         (new_FileUploader ''uploads'' no_options) idle =
     (None,
      (new_FileUploader ''uploads'' no_options)
        \<lparr>validationErrors := [''File extension  in notes. is not allowed. Allowed extentions: .''],
         result_data := [(''doc'',
           \<lparr>filename = ''notes.'', size_p = 500, type_p = ''image/jpeg'', contents = None,
            uri = [], url = []\<rparr>)]\<rparr>,
      \<lparr>uuid_calls = 0, date_calls = 0,
       trace =
         [OnError (Error
            ''Unprocessable Entity: File extension  in notes. is not allowed. Allowed extentions: .''),
          Next]\<rparr>)"
  by code_simp

section \<open>State kept on the instance (claim C2)\<close>

text \<open>Messages left on the instance by earlier requests make every later request fail,
  whatever it uploads: once the list is not empty it stays so, and the check of line 183
  throws.\<close>

lemma stale_errors_fail_the_request:
  assumes "validationErrors this \<noteq> []"
    and "precondition_error this r = None" and "formData r = Inr entries"
    and "process_entries e entries this w = (None, this1, w1)"
  shows "middleware e r this w =
           (None, this1,
            w1\<lparr>trace := trace w1
               @ [OnError (Error (aggregated_message (validationErrors this1))), Next]\<rparr>)"
proof -
  have "validationErrors this1 \<noteq> []"
    using entries_errors [OF assms(4), of "[]"] assms(1) by blast
  with assms(2,3,4) show ?thesis by (simp add: middleware_def try_block_def)
qed

text \<open>
  Claim C2: of two successive requests handled by the same instance, the second starts
  from a fresh error list and a fresh result mapping, so its outcome does not depend on
  the first.

  \<open>validationErrors\<close> and \<open>result\<close> are fields of the instance (lines 114 and 115) and
  nothing resets them. The request with the valid file \<open>b.jpg\<close> succeeds on a new
  instance; sent after a request whose file \<open>a.jpg\<close> was too large, it fails with the
  message about \<open>a.jpg\<close>, although \<open>b.jpg\<close> has been written to disk.
\<close>

theorem C2_second_request_inherits_errors:
  "fst (middleware host (upload [(''photo'', FileValue (jpeg ''b.jpg'' 50))]) jpg_uploader idle) =
     Some [(''photo'',
        \<lparr>filename = ''b.jpg'', size_p = 50, type_p = ''image/jpeg'', contents = None,
         uri = ''/app/uploads/2025/01/26/18/23/08/5b053289-28b2-4233-ae0c-09319f568000/b.jpg'',
         url = ''/uploads/2025/01/26/18/23/08/5b053289-28b2-4233-ae0c-09319f568000/b.jpg''\<rparr>)]
   \<and> (let (uploadedFiles, this1, w1) =
            middleware host (upload [(''photo'', FileValue (jpeg ''a.jpg'' 5000))]) jpg_uploader idle
        in middleware host (upload [(''photo'', FileValue (jpeg ''b.jpg'' 50))]) this1 w1) =
     (None,
      jpg_uploader
        \<lparr>validationErrors :=
           [''File size exceeds limit. File: a.jpg, Size: 5000 bytes, Limit: 1000 bytes. ''],
         result_data := [(''photo'',
           \<lparr>filename = ''b.jpg'', size_p = 50, type_p = ''image/jpeg'', contents = None,
            uri = ''/app/uploads/2025/01/26/18/23/08/5b053289-28b2-4233-ae0c-09319f568000/b.jpg'',
            url = ''/uploads/2025/01/26/18/23/08/5b053289-28b2-4233-ae0c-09319f568000/b.jpg''\<rparr>)]\<rparr>,
      \<lparr>uuid_calls = 1, date_calls = 1,
       trace =
         [OnError (Error
            ''Unprocessable Entity: File size exceeds limit. File: a.jpg, Size: 5000 bytes, Limit: 1000 bytes. ''),
          Next,
          EnsureDir ''/app/uploads/2025/01/26/18/23/08/5b053289-28b2-4233-ae0c-09319f568000'',
          ArrayBuffer (jpeg ''b.jpg'' 50),
          WriteFile ''/app/uploads/2025/01/26/18/23/08/5b053289-28b2-4233-ae0c-09319f568000/b.jpg'' ''data'',
          OnError (Error
            ''Unprocessable Entity: File size exceeds limit. File: a.jpg, Size: 5000 bytes, Limit: 1000 bytes. ''),
          Next]\<rparr>)"
  by code_simp

section \<open>The size check (claim C4)\<close>

text \<open>
  Claim C4 as stated fails where the extension check rejects the file first: the turn
  ends at the \<open>continue\<close> of line 226 (``It doesn't matter if the validation fails
  downstream''), so for \<open>big.\<close> of 5000 bytes against the limit of 1000 the only message
  recorded is the one about the extension, which names neither the size nor the limit.
\<close>

theorem C4_counterexample:
  "maxFileSizeBytes (options jpg_uploader) < int (size_f (jpeg ''big.'' 5000))
   \<and> middleware host (upload [(''photo'', FileValue (jpeg ''big.'' 5000))]) jpg_uploader idle =
     (None,
      jpg_uploader
        \<lparr>validationErrors := [''File extension  in big. is not allowed. Allowed extentions: jpg.''],
         result_data := [(''photo'',
           \<lparr>filename = ''big.'', size_p = 5000, type_p = ''image/jpeg'', contents = None,
            uri = [], url = []\<rparr>)]\<rparr>,
      \<lparr>uuid_calls = 0, date_calls = 0,
       trace =
         [OnError (Error
            ''Unprocessable Entity: File extension  in big. is not allowed. Allowed extentions: jpg.''),
          Next]\<rparr>)
   \<and> \<not> occurs ''5000'' ''File extension  in big. is not allowed. Allowed extentions: jpg.''
   \<and> \<not> occurs ''1000'' ''File extension  in big. is not allowed. Allowed extentions: jpg.''"
  by code_simp

text \<open>
  Claim C4, as amended: for every file whose declared size exceeds \<open>maxFileSizeBytes\<close>
  (sizes and limits that JavaScript prints with all their digits) one validation error is
  recorded for that file: the size message, which names the file, its size and the limit,
  when the file got past the extension check, and the extension message otherwise.
  Nothing is read or written for it (the world is unchanged), the entry of its field
  carries its name, size and type and neither contents nor \<open>uri\<close> nor \<open>url\<close>, and
  processing goes on, with the remaining files of the same call and with the remaining
  entries of the form; the message is still on the error list when the loop over the form
  ends.
\<close>

theorem C4_oversize_file:
  assumes "int (size_f f) > maxFileSizeBytes (options this)"
    and "plain_number (int (size_f f))" and "plain_number (maxFileSizeBytes (options this))"
    and "process_entries e before this0 w0 = (None, this, w)"
  shows "processFiles_step e f pf this w =
           (Inr (pf\<lparr>filename := name_f f, type_p := type_f f, size_p := size_f f\<rparr>),
            this\<lparr>validationErrors := validationErrors this @ [rejection_message (options this) f]\<rparr>,
            w)
       \<and> processFiles_loop e (f # files) pf this w =
           processFiles_loop e files
             (pf\<lparr>filename := name_f f, type_p := type_f f, size_p := size_f f\<rparr>)
             (this\<lparr>validationErrors := validationErrors this @ [rejection_message (options this) f]\<rparr>)
             w
       \<and> process_entries e (before @ (key, FileValue f) # rest) this0 w0 =
           process_entries e rest
             (this\<lparr>validationErrors := validationErrors this @ [rejection_message (options this) f],
                   result_data := AList.update key
                     \<lparr>filename = name_f f, size_p = size_f f, type_p = type_f f, contents = None,
                      uri = [], url = []\<rparr>
                     (result_data this)\<rparr>)
             w
       \<and> rejection_message (options this) f
           \<in> set (validationErrors (fst (snd
                 (process_entries e (before @ (key, FileValue f) # rest) this0 w0))))
       \<and> (if extension_rejected (options this) f then True
          else occurs (name_f f) (rejection_message (options this) f)
             \<and> occurs (show_nat (size_f f)) (rejection_message (options this) f)
             \<and> occurs (show_int (maxFileSizeBytes (options this))) (rejection_message (options this) f))"
proof -
  let ?m = "rejection_message (options this) f"
  let ?this1 = "this\<lparr>validationErrors := validationErrors this @ [?m],
                   result_data := AList.update key
                     \<lparr>filename = name_f f, size_p = size_f f, type_p = type_f f, contents = None,
                      uri = [], url = []\<rparr>
                     (result_data this)\<rparr>"
  note s = step_oversize [OF assms(1)]
  have one: "process_entries e ((key, FileValue f) # rest) this w = process_entries e rest ?this1 w"
    by (simp add: processFiles_def s)
  have all: "process_entries e (before @ (key, FileValue f) # rest) this0 w0
               = process_entries e rest ?this1 w"
    using assms(4) one by (simp add: entries_append)
  obtain r thisN wN where run: "process_entries e rest ?this1 w = (r, thisN, wN)"
    by (cases "process_entries e rest ?this1 w") auto
  from entries_grows [OF run] obtain more where
    "validationErrors thisN = validationErrors ?this1 @ more" by blast
  then have "?m \<in> set (validationErrors thisN)" by simp
  with all run have mem: "?m \<in> set (validationErrors (fst (snd
                 (process_entries e (before @ (key, FileValue f) # rest) this0 w0))))"
    by simp
  have names: "(if extension_rejected (options this) f then True
          else occurs (name_f f) ?m \<and> occurs (show_nat (size_f f)) ?m
             \<and> occurs (show_int (maxFileSizeBytes (options this))) ?m)"
    by (simp add: rejection_message_code size_message_names)
  from s have loop: "processFiles_loop e (f # files) pf this w =
           processFiles_loop e files
             (pf\<lparr>filename := name_f f, type_p := type_f f, size_p := size_f f\<rparr>)
             (this\<lparr>validationErrors := validationErrors this @ [?m]\<rparr>) w"
    by simp
  show ?thesis
    by (intro conjI s loop all mem names)
qed

text \<open>Witness for C4: a form with two fields, \<open>a.jpg\<close> of 5000 bytes against the limit
  of 1000 and then \<open>b.jpg\<close> of 50 bytes. The size message is recorded for the first,
  nothing is written for it, and the second is stored.\<close>

theorem C4_oversize_file_witness:
  "maxFileSizeBytes (options jpg_uploader) < int (size_f (jpeg ''a.jpg'' 5000))
   \<and> plain_number (int (size_f (jpeg ''a.jpg'' 5000)))
   \<and> plain_number (maxFileSizeBytes (options jpg_uploader))
   \<and> process_entries host [] jpg_uploader idle = (None, jpg_uploader, idle)
   \<and> process_entries host
       [(''photo'', FileValue (jpeg ''a.jpg'' 5000)), (''doc'', FileValue (jpeg ''b.jpg'' 50))]
       jpg_uploader idle =
     (None,
      jpg_uploader
        \<lparr>validationErrors :=
           [''File size exceeds limit. File: a.jpg, Size: 5000 bytes, Limit: 1000 bytes. ''],
         result_data :=
           [(''photo'',
             \<lparr>filename = ''a.jpg'', size_p = 5000, type_p = ''image/jpeg'', contents = None,
              uri = [], url = []\<rparr>),
            (''doc'',
             \<lparr>filename = ''b.jpg'', size_p = 50, type_p = ''image/jpeg'', contents = None,
              uri = ''/app/uploads/2025/01/26/18/23/08/5b053289-28b2-4233-ae0c-09319f568000/b.jpg'',
              url = ''/uploads/2025/01/26/18/23/08/5b053289-28b2-4233-ae0c-09319f568000/b.jpg''\<rparr>)]\<rparr>,
      \<lparr>uuid_calls = 1, date_calls = 1,
       trace =
         [EnsureDir ''/app/uploads/2025/01/26/18/23/08/5b053289-28b2-4233-ae0c-09319f568000'',
          ArrayBuffer (jpeg ''b.jpg'' 50),
          WriteFile ''/app/uploads/2025/01/26/18/23/08/5b053289-28b2-4233-ae0c-09319f568000/b.jpg''
            ''data'']\<rparr>)
   \<and> rejection_message (options jpg_uploader) (jpeg ''a.jpg'' 5000)
       = ''File size exceeds limit. File: a.jpg, Size: 5000 bytes, Limit: 1000 bytes. ''
   \<and> occurs ''a.jpg'' ''File size exceeds limit. File: a.jpg, Size: 5000 bytes, Limit: 1000 bytes. ''
   \<and> occurs ''5000'' ''File size exceeds limit. File: a.jpg, Size: 5000 bytes, Limit: 1000 bytes. ''
   \<and> occurs ''1000'' ''File size exceeds limit. File: a.jpg, Size: 5000 bytes, Limit: 1000 bytes. ''"
proof -
  let ?a = "jpeg ''a.jpg'' 5000"
  let ?init = "\<lparr>filename = [], size_p = 0, type_p = [], contents = None, uri = [], url = []\<rparr>"
  let ?rest = "[(''doc'', FileValue (jpeg ''b.jpg'' 50))]"
  let ?m = "''File size exceeds limit. File: a.jpg, Size: 5000 bytes, Limit: 1000 bytes. ''"
  let ?T = "jpg_uploader
        \<lparr>validationErrors := [?m],
         result_data :=
           [(''photo'',
             \<lparr>filename = ''a.jpg'', size_p = 5000, type_p = ''image/jpeg'', contents = None,
              uri = [], url = []\<rparr>),
            (''doc'',
             \<lparr>filename = ''b.jpg'', size_p = 50, type_p = ''image/jpeg'', contents = None,
              uri = ''/app/uploads/2025/01/26/18/23/08/5b053289-28b2-4233-ae0c-09319f568000/b.jpg'',
              url = ''/uploads/2025/01/26/18/23/08/5b053289-28b2-4233-ae0c-09319f568000/b.jpg''\<rparr>)]\<rparr>"
  let ?W = "\<lparr>uuid_calls = 1, date_calls = 1,
       trace =
         [EnsureDir ''/app/uploads/2025/01/26/18/23/08/5b053289-28b2-4233-ae0c-09319f568000'',
          ArrayBuffer (jpeg ''b.jpg'' 50),
          WriteFile ''/app/uploads/2025/01/26/18/23/08/5b053289-28b2-4233-ae0c-09319f568000/b.jpg''
            ''data'']\<rparr>"
  have h1: "maxFileSizeBytes (options jpg_uploader) < int (size_f ?a)" by code_simp
  have h2: "plain_number (int (size_f ?a))" by code_simp
  have h3: "plain_number (maxFileSizeBytes (options jpg_uploader))" by code_simp
  have h4: "process_entries host [] jpg_uploader idle = (None, jpg_uploader, idle)" by simp
  have ev: "process_entries host ?rest
              (jpg_uploader
                 \<lparr>validationErrors := validationErrors jpg_uploader
                     @ [rejection_message (options jpg_uploader) ?a],
                  result_data := AList.update ''photo''
                     \<lparr>filename = name_f ?a, size_p = size_f ?a, type_p = type_f ?a, contents = None,
                      uri = [], url = []\<rparr>
                     (result_data jpg_uploader)\<rparr>)
              idle = (None, ?T, ?W)"
    by code_simp
  have m: "rejection_message (options jpg_uploader) ?a = ?m" by code_simp
  have x: "extension_rejected (options jpg_uploader) ?a = False" by code_simp
  have n1: "name_f ?a = ''a.jpg''" by code_simp
  have n2: "show_nat (size_f ?a) = ''5000''" by code_simp
  have n3: "show_int (maxFileSizeBytes (options jpg_uploader)) = ''1000''" by code_simp
  note c = C4_oversize_file [OF h1 h2 h3 h4, where pf = ?init and files = "[]"
      and key = "''photo''" and rest = ?rest]
  from c have run: "process_entries host ([] @ (''photo'', FileValue ?a) # ?rest) jpg_uploader idle
                     = (None, ?T, ?W)"
    unfolding ev by (elim conjE)
  from c have "if extension_rejected (options jpg_uploader) ?a then True
        else occurs (name_f ?a) (rejection_message (options jpg_uploader) ?a)
           \<and> occurs (show_nat (size_f ?a)) (rejection_message (options jpg_uploader) ?a)
           \<and> occurs (show_int (maxFileSizeBytes (options jpg_uploader)))
               (rejection_message (options jpg_uploader) ?a)"
    by (elim conjE)
  then have names: "occurs ''a.jpg'' ?m \<and> occurs ''5000'' ?m \<and> occurs ''1000'' ?m"
    unfolding x m n1 n2 n3 by (simp only: if_False)
  show ?thesis
    using names by (intro conjI h1 h2 h3 h4 run [unfolded append_Nil] m) (elim conjE, assumption)+
qed

section \<open>Precondition failures (claim C5)\<close>





lemma digit_value_digit_char: "d < 10 \<Longrightarrow> digit_value (digit_char d) = d"
proof -
  have "list_all (\<lambda>d. digit_value (digit_char d) = d) [0..<10]" by code_simp
  then show "d < 10 \<Longrightarrow> digit_value (digit_char d) = d" by (simp add: list_all_iff)
qed

lemma show_nat_value:
  "foldl (\<lambda>a c. a * 10 + int (digit_value c)) 0 (show_nat n) = int n"
proof (induction n rule: show_nat.induct)
  case (1 n)
  show ?case
  proof (cases "n < 10")
    case True
    then show ?thesis by (subst show_nat.simps) (simp add: digit_value_digit_char)
  next
    case False
    have "int (n div 10) * 10 + int (n mod 10) = int n" by presburger
    with False "1.IH" show ?thesis
      by (subst show_nat.simps) (simp add: digit_value_digit_char)
  qed
qed

lemma digit_facts:
  assumes "c \<in> set ''0123456789''"
  shows "digit_value c < 10" and "\<not> is_js_space c" and "c \<noteq> CHR ''-''" and "c \<noteq> CHR ''+''"
    and "c \<noteq> CHR ''x''" and "c \<noteq> CHR ''X''"
  using assms by (auto simp: digit_value_def is_js_space_def)

lemma parseInt_show_nat: "parseInt (show_nat n) = Some (to_double (int n))"
proof -
  let ?s = "show_nat n"
  note d = show_nat_digits [of n]
  then obtain c t where s: "?s = c # t" by (cases ?s) auto
  with d have c: "c \<in> set ''0123456789''" and t: "set t \<subseteq> set ''0123456789''" by auto
  have 1: "dropWhile is_js_space ?s = ?s" using s digit_facts(2) [OF c] by simp
  have 2: "(take 1 ?s = ''-'') = False" "(take 1 ?s = ''+'') = False"
    using s digit_facts(3,4) [OF c] by simp_all
  have "take 2 ?s \<noteq> [CHR ''0'', x]" if "x = CHR ''x'' \<or> x = CHR ''X''" for x
  proof (cases t)
    case Nil
    with s show ?thesis by simp
  next
    case (Cons b u)
    with t have "b \<in> set ''0123456789''" by auto
    from digit_facts(5,6) [OF this] s Cons that show ?thesis by auto
  qed
  then have 3: "(take 2 ?s = ''0x'') = False" "(take 2 ?s = ''0X'') = False" by simp_all
  have 4: "takeWhile (\<lambda>c. int (digit_value c) < 10) ?s = ?s"
    using d digit_facts(1) by (intro takeWhile_eq_all_conv [THEN iffD2]) auto
  from d have 5: "(?s = []) = False" by simp
  show ?thesis
    by (simp only: parseInt_def Let_def 1 2 3 4 5 show_nat_value simp_thms if_False)
qed

text \<open>A content-length header that is the decimal rendering of a number below \<open>2^53\<close>
  and above the limit is too large.\<close>

lemma declared_length_too_large:
  "int n < 9007199254740992 \<Longrightarrow> int n > limit \<Longrightarrow> too_large (show_nat n) limit"
  by (simp add: too_large_def parseInt_show_nat to_double_def)


text \<open>A header above \<open>2^53\<close> is compared after rounding, as line 152 does: the declared
  length 9007199254740993 is read as 9007199254740992 and passes that limit.\<close>

lemma rounded_header_passes_the_limit:
  "parseInt ''9007199254740993'' = Some 9007199254740992
   \<and> \<not> too_large ''9007199254740993'' 9007199254740992
   \<and> precondition_error
         (jpg_uploader\<lparr>options := (options jpg_uploader)\<lparr>maxSizeBytes := 9007199254740992\<rparr>\<rparr>)
         ((upload [])\<lparr>contentLength := Some ''9007199254740993''\<rparr>) = None"
  by code_simp


section \<open>Several files under one field (claim C6)\<close>

lemma files_under_append:
  "files_under k (before @ rest) = files_under k before @ files_under k rest"
  by (induction before) auto

lemma entries_other_fields:
  assumes "process_entries e entries this w = (None, this1, w1)"
  shows "(distinct (map fst (result_data this)) \<longrightarrow> distinct (map fst (result_data this1)))
       \<and> (files_under k entries = [] \<longrightarrow> map_of (result_data this1) k = map_of (result_data this) k)"
  using assms
proof (induction entries arbitrary: this w)
  case Nil
  then show ?case by simp
next
  case (Cons entry rest)
  obtain key v where entry: "entry = (key, v)" by (cases entry)
  show ?case
  proof (cases "files_in v = []")
    case True
    with Cons.prems entry have "process_entries e rest this w = (None, this1, w1)"
      by (simp add: process_entries_Cons)
    from Cons.IH [OF this] True entry show ?thesis by simp
  next
    case False
    obtain r0 t x where s: "processFiles e (files_in v) this w = (r0, t, x)"
      by (cases "processFiles e (files_in v) this w") auto
    let ?t = "\<lambda>pf. t\<lparr>result_data := AList.update key pf (result_data t)\<rparr>"
    from Cons.prems entry False s obtain pf0 where r0: "r0 = Inr pf0"
      and rest: "process_entries e rest (?t pf0) x = (None, this1, w1)"
      by (cases r0) (auto simp: process_entries_Cons)
    note k = processFiles_keeps [OF s]
    note IH = Cons.IH [OF rest]
    have dist: "distinct (map fst (result_data this1))" if "distinct (map fst (result_data this))"
      using IH that k(3) by (simp add: distinct_update)
    have same: "map_of (result_data this1) k = map_of (result_data this) k"
      if "files_under k (entry # rest) = []"
    proof -
      from that entry False have "key \<noteq> k" and "files_under k rest = []" by (auto split: if_splits)
      with IH k(3) show ?thesis by (simp add: update_conv')
    qed
    from dist same show ?thesis by blast
  qed
qed

lemma single_entry:
  "distinct (map fst xs) \<Longrightarrow> map_of xs k = Some v \<Longrightarrow> filter (\<lambda>entry. fst entry = k) xs = [(k, v)]"
proof (induction xs)
  case Nil
  then show ?case by simp
next
  case (Cons x xs)
  obtain a b where x: "x = (a, b)" by (cases x)
  show ?case
  proof (cases "a = k")
    case True
    with Cons.prems x have "b = v" and "k \<notin> fst ` set xs" by auto
    then have "filter (\<lambda>entry. fst entry = k) xs = []" by (auto simp: filter_empty_conv)
    with True x \<open>b = v\<close> show ?thesis by simp
  next
    case False
    with Cons x show ?thesis by simp
  qed
qed

lemma entries_last_file:
  assumes "decoded entries"
    and "process_entries e entries this w = (None, this1, w1)"
    and "files_under k entries \<noteq> []"
  shows "\<exists>before after this0 w0 pf t x.
           entries = before @ (k, FileValue (last (files_under k entries))) # after
         \<and> files_under k after = []
         \<and> process_entries e before this w = (None, this0, w0)
         \<and> processFiles e [last (files_under k entries)] this0 w0 = (Inr pf, t, x)
         \<and> process_entries e after (t\<lparr>result_data := AList.update k pf (result_data t)\<rparr>) x
             = (None, this1, w1)
         \<and> map_of (result_data this1) k = Some pf"
  using assms
proof (induction entries arbitrary: this w)
  case Nil
  then show ?case by simp
next
  case (Cons entry rest)
  obtain key v where entry: "entry = (key, v)" by (cases entry)
  from Cons.prems(1) have dec: "decoded rest" and v: "\<not> is_array v"
    by (simp_all add: decoded_def entry)
  show ?case
  proof (cases "files_under k rest = []")
    case True
    with Cons.prems(3) entry v obtain f where kf: "key = k" "v = FileValue f"
      by (cases v) (auto split: if_splits)
    with True entry have l: "last (files_under k (entry # rest)) = f" by simp
    obtain r0 t x where s: "processFiles e [f] this w = (r0, t, x)"
      by (cases "processFiles e [f] this w") auto
    with Cons.prems(2) entry kf obtain pf where r0: "r0 = Inr pf"
      and rest: "process_entries e rest (t\<lparr>result_data := AList.update k pf (result_data t)\<rparr>) x
                   = (None, this1, w1)"
      by (cases r0) auto
    from entries_other_fields [OF rest, of k] True
    have "map_of (result_data this1) k = Some pf" by (simp add: update_conv')
    with s r0 rest True entry kf show ?thesis
      unfolding l
      by (intro exI [of _ "[]"] exI [of _ rest] exI [of _ this] exI [of _ w] exI [of _ pf]
          exI [of _ t] exI [of _ x]) simp
  next
    case False
    then have l: "last (files_under k (entry # rest)) = last (files_under k rest)"
      by (simp add: entry)
    have "\<exists>this' w'. process_entries e [entry] this w = (None, this', w')
                    \<and> process_entries e rest this' w' = (None, this1, w1)"
      using Cons.prems(2) entries_append [of e "[entry]" rest this w]
      by (auto split: prod.splits option.splits)
    then obtain this' w' where head: "process_entries e [entry] this w = (None, this', w')"
      and rest: "process_entries e rest this' w' = (None, this1, w1)" by blast
    from Cons.IH [OF dec rest False] obtain before after this0 w0 pf t x where
      IH: "rest = before @ (k, FileValue (last (files_under k rest))) # after"
        "files_under k after = []"
        "process_entries e before this' w' = (None, this0, w0)"
        "processFiles e [last (files_under k rest)] this0 w0 = (Inr pf, t, x)"
        "process_entries e after (t\<lparr>result_data := AList.update k pf (result_data t)\<rparr>) x
             = (None, this1, w1)"
        "map_of (result_data this1) k = Some pf"
      by blast
    have "process_entries e (entry # before) this w = (None, this0, w0)"
      using entries_append [of e "[entry]" before this w] head IH(3) by simp
    with IH show ?thesis
      unfolding l
      by (intro exI [of _ "entry # before"] exI [of _ after] exI [of _ this0] exI [of _ w0]
          exI [of _ pf] exI [of _ t] exI [of _ x]) simp
  qed
qed

lemma saveFileToDisk_writes:
  "saveFileToDisk e this f w = (Inr p, w1) \<Longrightarrow> last (trace w1) = WriteFile p (bytes_f f)"
  by (auto simp: saveFileToDisk_def Let_def split: if_splits)

lemma single_file:
  assumes "processFiles e [f] this w = (Inr pf, t, x)"
  shows "filename pf = name_f f \<and> size_p pf = size_f f \<and> type_p pf = type_f f
       \<and> (if accepted (options this) f
          then contents pf = (if readFile (options this) then Some (bytes_f f) else None)
             \<and> last (trace x) = WriteFile (uri pf) (bytes_f f)
             \<and> validationErrors t = validationErrors this
          else contents pf = None \<and> uri pf = [] \<and> url pf = [] \<and> x = w
             \<and> validationErrors t = validationErrors this @ [rejection_message (options this) f])"
proof -
  let ?init = "\<lparr>filename = [], size_p = 0, type_p = [], contents = None, uri = [], url = []\<rparr>"
  from assms have s: "processFiles_step e f ?init this w = (Inr pf, t, x)"
    by (auto simp: processFiles_def split: prod.splits sum.splits)
  show ?thesis
  proof (cases "accepted (options this) f")
    case True
    from s True show ?thesis
      unfolding step_accepted [OF True] Let_def
      by (auto split: if_splits prod.splits sum.splits dest: saveFileToDisk_writes)
  next
    case False
    then have "int (size_f f) > maxFileSizeBytes (options this) \<or> extension_rejected (options this) f"
      by (auto simp: accepted_def)
    then show ?thesis
    proof
      assume "int (size_f f) > maxFileSizeBytes (options this)"
      from step_oversize [OF this, of e ?init w] s False show ?thesis by auto
    next
      assume r: "extension_rejected (options this) f"
      from step_extension_rejected [OF r, of e ?init w] s False r show ?thesis
        by (auto simp: rejection_message_code)
    qed
  qed
qed

text \<open>
  Claim C6: in a form as the body decoder yields it, when the loop over the entries has
  run to its end, a field that carries files has exactly one entry in the result mapping,
  and that entry is what processing the last file under the field returned, alone and on
  a fresh object, in the state in which the loop reached it. It has that file's name,
  size and type; when the file was accepted it has that file's contents (if they are
  read) and a \<open>uri\<close> to which that file's bytes were written; when the file was
  rejected it has no contents, no \<open>uri\<close> and no \<open>url\<close>. Nothing of an earlier file
  under the field is left in it.
\<close>

theorem C6_last_file_wins:
  assumes "decoded entries"
    and "process_entries e entries this w = (None, this1, w1)"
    and "files_under k entries \<noteq> []"
    and "distinct (map fst (result_data this))"
  shows "\<exists>pf before after this0 w0 t x.
           filter (\<lambda>entry. fst entry = k) (result_data this1) = [(k, pf)]
         \<and> entries = before @ (k, FileValue (last (files_under k entries))) # after
         \<and> files_under k after = []
         \<and> process_entries e before this w = (None, this0, w0)
         \<and> options this0 = options this \<and> path this0 = path this
         \<and> processFiles e [last (files_under k entries)] this0 w0 = (Inr pf, t, x)
         \<and> filename pf = name_f (last (files_under k entries))
         \<and> size_p pf = size_f (last (files_under k entries))
         \<and> type_p pf = type_f (last (files_under k entries))
         \<and> (if accepted (options this) (last (files_under k entries))
            then contents pf = (if readFile (options this)
                                then Some (bytes_f (last (files_under k entries))) else None)
               \<and> WriteFile (uri pf) (bytes_f (last (files_under k entries))) \<in> set (trace w1)
            else contents pf = None \<and> uri pf = [] \<and> url pf = [])"
proof -
  let ?f = "last (files_under k entries)"
  from entries_last_file [OF assms(1,2,3)] obtain before after this0 w0 pf t x where
    d: "entries = before @ (k, FileValue ?f) # after"
      "files_under k after = []"
      "process_entries e before this w = (None, this0, w0)"
      "processFiles e [?f] this0 w0 = (Inr pf, t, x)"
      "process_entries e after (t\<lparr>result_data := AList.update k pf (result_data t)\<rparr>) x
             = (None, this1, w1)"
      "map_of (result_data this1) k = Some pf"
    by blast
  from entries_other_fields [OF assms(2), of k] assms(4)
  have "distinct (map fst (result_data this1))" by simp
  from single_entry [OF this d(6)]
  have one: "filter (\<lambda>entry. fst entry = k) (result_data this1) = [(k, pf)]" .
  from entries_grows [OF d(3)] have o: "options this0 = options this" "path this0 = path this"
    by simp_all
  note sf = single_file [OF d(4), unfolded o]
  have wr: "WriteFile (uri pf) (bytes_f ?f) \<in> set (trace w1)" if a: "accepted (options this) ?f"
  proof -
    from sf a have l: "last (trace x) = WriteFile (uri pf) (bytes_f ?f)" by simp
    have "trace x \<noteq> []"
    proof
      assume "trace x = []"
      from a have acc: "accepted (options this0) ?f" by (simp add: o)
      from d(4) have "processFiles_step e ?f
          \<lparr>filename = [], size_p = 0, type_p = [], contents = None, uri = [], url = []\<rparr> this0 w0
          = (Inr pf, t, x)"
        by (auto simp: processFiles_def split: prod.splits sum.splits)
      with \<open>trace x = []\<close> show False
        unfolding step_accepted [OF acc] Let_def
        by (auto simp: saveFileToDisk_def Let_def split: if_splits prod.splits sum.splits)
    qed
    with l have "WriteFile (uri pf) (bytes_f ?f) \<in> set (trace x)"
      using last_in_set by metis
    moreover from entries_grows [OF d(5)] obtain more where "trace w1 = trace x @ more" by auto
    ultimately show ?thesis by simp
  qed
  from sf wr have facts: "filename pf = name_f ?f" "size_p pf = size_f ?f" "type_p pf = type_f ?f"
     "if accepted (options this) ?f
            then contents pf = (if readFile (options this) then Some (bytes_f ?f) else None)
               \<and> WriteFile (uri pf) (bytes_f ?f) \<in> set (trace w1)
            else contents pf = None \<and> uri pf = [] \<and> url pf = []"
    by (auto split: if_splits)
  show ?thesis
    by (intro exI [of _ pf] exI [of _ before] exI [of _ after] exI [of _ this0] exI [of _ w0]
        exI [of _ t] exI [of _ x] conjI one d(1,2,3,4) o facts)
qed

text \<open>Witness for C6: the field \<open>photos\<close> carries \<open>a.jpg\<close> and then \<open>b.jpg\<close>, both
  accepted; both are written, and the single entry is the one of \<open>b.jpg\<close>.\<close>

theorem C6_last_file_wins_witness:
  "decoded [(''photos'', FileValue (jpeg ''a.jpg'' 50)), (''photos'', FileValue (jpeg ''b.jpg'' 60))]
   \<and> process_entries host
       [(''photos'', FileValue (jpeg ''a.jpg'' 50)), (''photos'', FileValue (jpeg ''b.jpg'' 60))]
       jpg_uploader idle =
     (None,
      jpg_uploader
        \<lparr>result_data := [(''photos'',
           \<lparr>filename = ''b.jpg'', size_p = 60, type_p = ''image/jpeg'', contents = None,
            uri = ''/app/uploads/2025/01/26/18/23/08/5b053289-28b2-4233-ae0c-09319f568001/b.jpg'',
            url = ''/uploads/2025/01/26/18/23/08/5b053289-28b2-4233-ae0c-09319f568001/b.jpg''\<rparr>)]\<rparr>,
      \<lparr>uuid_calls = 2, date_calls = 2,
       trace =
         [EnsureDir ''/app/uploads/2025/01/26/18/23/08/5b053289-28b2-4233-ae0c-09319f568000'',
          ArrayBuffer (jpeg ''a.jpg'' 50),
          WriteFile ''/app/uploads/2025/01/26/18/23/08/5b053289-28b2-4233-ae0c-09319f568000/a.jpg''
            ''data'',
          EnsureDir ''/app/uploads/2025/01/26/18/23/08/5b053289-28b2-4233-ae0c-09319f568001'',
          ArrayBuffer (jpeg ''b.jpg'' 60),
          WriteFile ''/app/uploads/2025/01/26/18/23/08/5b053289-28b2-4233-ae0c-09319f568001/b.jpg''
            ''data'']\<rparr>)
   \<and> files_under ''photos''
       [(''photos'', FileValue (jpeg ''a.jpg'' 50)), (''photos'', FileValue (jpeg ''b.jpg'' 60))]
       = [jpeg ''a.jpg'' 50, jpeg ''b.jpg'' 60]
   \<and> distinct (map fst (result_data jpg_uploader))
   \<and> accepted (options jpg_uploader) (jpeg ''b.jpg'' 60)
   \<and> (\<exists>pf. [(''photos'',
           \<lparr>filename = ''b.jpg'', size_p = 60, type_p = ''image/jpeg'', contents = None,
            uri = ''/app/uploads/2025/01/26/18/23/08/5b053289-28b2-4233-ae0c-09319f568001/b.jpg'',
            url = ''/uploads/2025/01/26/18/23/08/5b053289-28b2-4233-ae0c-09319f568001/b.jpg''\<rparr>)]
          = [(''photos'', pf)]
        \<and> filename pf = ''b.jpg'' \<and> size_p pf = 60 \<and> type_p pf = ''image/jpeg''
        \<and> WriteFile (uri pf) ''data''
            \<in> set [EnsureDir ''/app/uploads/2025/01/26/18/23/08/5b053289-28b2-4233-ae0c-09319f568000'',
                 ArrayBuffer (jpeg ''a.jpg'' 50),
                 WriteFile ''/app/uploads/2025/01/26/18/23/08/5b053289-28b2-4233-ae0c-09319f568000/a.jpg''
                   ''data'',
                 EnsureDir ''/app/uploads/2025/01/26/18/23/08/5b053289-28b2-4233-ae0c-09319f568001'',
                 ArrayBuffer (jpeg ''b.jpg'' 60),
                 WriteFile ''/app/uploads/2025/01/26/18/23/08/5b053289-28b2-4233-ae0c-09319f568001/b.jpg''
                   ''data''])"
proof -
  let ?es = "[(''photos'', FileValue (jpeg ''a.jpg'' 50)), (''photos'', FileValue (jpeg ''b.jpg'' 60))]"
  let ?entry = "\<lparr>filename = ''b.jpg'', size_p = 60, type_p = ''image/jpeg'', contents = None,
            uri = ''/app/uploads/2025/01/26/18/23/08/5b053289-28b2-4233-ae0c-09319f568001/b.jpg'',
            url = ''/uploads/2025/01/26/18/23/08/5b053289-28b2-4233-ae0c-09319f568001/b.jpg''\<rparr>"
  let ?t = "jpg_uploader\<lparr>result_data := [(''photos'', ?entry)]\<rparr>"
  let ?tr = "[EnsureDir ''/app/uploads/2025/01/26/18/23/08/5b053289-28b2-4233-ae0c-09319f568000'',
          ArrayBuffer (jpeg ''a.jpg'' 50),
          WriteFile ''/app/uploads/2025/01/26/18/23/08/5b053289-28b2-4233-ae0c-09319f568000/a.jpg''
            ''data'',
          EnsureDir ''/app/uploads/2025/01/26/18/23/08/5b053289-28b2-4233-ae0c-09319f568001'',
          ArrayBuffer (jpeg ''b.jpg'' 60),
          WriteFile ''/app/uploads/2025/01/26/18/23/08/5b053289-28b2-4233-ae0c-09319f568001/b.jpg''
            ''data'']"
  let ?w = "\<lparr>uuid_calls = 2, date_calls = 2, trace = ?tr\<rparr>"
  have 0: "decoded ?es" by (simp add: decoded_def)
  have 1: "process_entries host ?es jpg_uploader idle = (None, ?t, ?w)" by code_simp
  have 2: "files_under ''photos'' ?es = [jpeg ''a.jpg'' 50, jpeg ''b.jpg'' 60]" by simp
  then have ne: "files_under ''photos'' ?es \<noteq> []" by simp
  have l: "last (files_under ''photos'' ?es) = jpeg ''b.jpg'' 60" by simp
  have 3: "distinct (map fst (result_data jpg_uploader))" by code_simp
  have 4: "accepted (options jpg_uploader) (jpeg ''b.jpg'' 60)" by code_simp
  from C6_last_file_wins [OF 0 1 ne 3] obtain pf where
    c: "filter (\<lambda>entry. fst entry = ''photos'') (result_data ?t) = [(''photos'', pf)]"
       "filename pf = name_f (last (files_under ''photos'' ?es))"
       "size_p pf = size_f (last (files_under ''photos'' ?es))"
       "type_p pf = type_f (last (files_under ''photos'' ?es))"
       "if accepted (options jpg_uploader) (last (files_under ''photos'' ?es))
        then contents pf = (if readFile (options jpg_uploader)
                            then Some (bytes_f (last (files_under ''photos'' ?es))) else None)
           \<and> WriteFile (uri pf) (bytes_f (last (files_under ''photos'' ?es))) \<in> set (trace ?w)
        else contents pf = None \<and> uri pf = [] \<and> url pf = []"
    by blast
  from c(1) have e: "[(''photos'', ?entry)] = [(''photos'', pf)]" by simp
  from c(2,3,4) have n: "filename pf = ''b.jpg''" "size_p pf = 60" "type_p pf = ''image/jpeg''"
    unfolding l by (simp_all add: jpeg_def)
  from c(5) 4 have wr: "WriteFile (uri pf) ''data'' \<in> set ?tr"
    unfolding l by (simp add: jpeg_def)
  from e n wr have 5: "\<exists>pf. [(''photos'', ?entry)] = [(''photos'', pf)]
        \<and> filename pf = ''b.jpg'' \<and> size_p pf = 60 \<and> type_p pf = ''image/jpeg''
        \<and> WriteFile (uri pf) ''data'' \<in> set ?tr"
    by blast
  show ?thesis by (intro conjI 0 1 2 3 4 5)
qed

section \<open>Where a file is stored (claims C7 and C8)\<close>














lemma occurs_take: "take (length p) s = p \<Longrightarrow> occurs p s"
  using occurs_prefix [of p "drop (length p) s"] append_take_drop_id [of "length p" s]
  by metis







lemma temp_name_segment:
  assumes "CHR ''/'' \<notin> set u" and "CHR ''/'' \<notin> set n"
  shows "segment (u @ ''_'' @ n)"
proof -
  have "set (u @ ''_'' @ n) \<noteq> set s" if "CHR ''_'' \<notin> set s" for s
    using that by auto
  from this [of "''.''"] this [of "''..''"]
  have "u @ ''_'' @ n \<noteq> ''.''" and "u @ ''_'' @ n \<noteq> ''..''"
    by fastforce+
  with assms show ?thesis by (simp add: segment_def)
qed

lemma tempUploadsDir_render:
  assumes "normal_absolute (cwd e)"
  shows "tempUploadsDir e = render True (segments (cwd e) @ [''temp_uploads''])"
proof -
  have t: "segment ''temp_uploads''" by (simp add: segment_def)
  then have "join [cwd e, render False [''temp_uploads'']]
               = render (hd (cwd e) = CHR ''/'') (segments (cwd e) @ [''temp_uploads''])"
    by (intro join_render normal_absolute_facts(1,3) [OF assms]) simp_all
  with normal_absolute_facts(2) [OF assms] show ?thesis
    by (simp add: tempUploadsDir_def render_def)
qed

lemma temp_file_path:
  assumes "normal_absolute (cwd e)" and "CHR ''/'' \<notin> set u" and "CHR ''/'' \<notin> set n"
  shows "join [tempUploadsDir e, u @ ''_'' @ n] = layout_temp e u n"
proof -
  let ?zs = "segments (cwd e) @ [''temp_uploads'']"
  have zs: "list_all segment ?zs" "?zs \<noteq> []"
    using segments_are_segments [OF normal_absolute_facts(3) [OF assms(1)]]
    by (simp_all add: segment_def)
  from join_file [OF zs temp_name_segment [OF assms(2,3)], of True]
  have "join [tempUploadsDir e, u @ ''_'' @ n] = render True (?zs @ [u @ ''_'' @ n])"
    by (simp add: tempUploadsDir_render [OF assms(1)])
  also have "\<dots> = render True ?zs @ ''/'' @ (u @ ''_'' @ n)"
    using render_append [OF zs(2), of "[u @ ''_'' @ n]" True] by simp
  finally show ?thesis by (simp add: layout_temp_def tempUploadsDir_render [OF assms(1)])
qed

lemma step_temporary:
  assumes "accepted (options this) f" and "\<not> saveFile (options this)"
    and "normal_absolute (cwd e)"
    and "CHR ''/'' \<notin> set (randomUUID e (uuid_calls w))" and "CHR ''/'' \<notin> set (name_f f)"
    and "writeFile_ok e (layout_temp e (randomUUID e (uuid_calls w)) (name_f f))"
  shows "\<exists>pf1 w1. processFiles_step e f pf this w = (Inr pf1, this, w1)
           \<and> url pf1 = [] \<and> uri pf1 = layout_temp e (randomUUID e (uuid_calls w)) (name_f f)
           \<and> last (trace w1) = WriteFile (uri pf1) (bytes_f f)"
  using assms(2,6) temp_file_path [OF assms(3,4,5)]
  by (simp add: step_accepted [OF assms(1)] Let_def)

text \<open>
  Claim C7 as stated fails for a file name with dot segments: \<open>join\<close> normalises the
  path, so two accepted files named \<open>/../x.jpg\<close> are both written to
  \<open>/app/temp_uploads/x.jpg\<close>, although their identifiers differ. The \<open>uri\<close> is not of
  the form \<open>{unique-id}_{original filename}\<close> and the two values are equal.
\<close>

theorem C7_counterexample:
  "accepted (options temp_uploader) (jpeg ''/../x.jpg'' 50)
   \<and> \<not> saveFile (options temp_uploader)
   \<and> randomUUID host 0 \<noteq> randomUUID host 1
   \<and> middleware host
       (upload [(''one'', FileValue (jpeg ''/../x.jpg'' 50)), (''two'', FileValue (jpeg ''/../x.jpg'' 50))])
       temp_uploader idle =
     (Some [(''one'',
         \<lparr>filename = ''/../x.jpg'', size_p = 50, type_p = ''image/jpeg'', contents = None,
          uri = ''/app/temp_uploads/x.jpg'', url = []\<rparr>),
        (''two'',
         \<lparr>filename = ''/../x.jpg'', size_p = 50, type_p = ''image/jpeg'', contents = None,
          uri = ''/app/temp_uploads/x.jpg'', url = []\<rparr>)],
      temp_uploader
        \<lparr>result_data := [(''one'',
           \<lparr>filename = ''/../x.jpg'', size_p = 50, type_p = ''image/jpeg'', contents = None,
            uri = ''/app/temp_uploads/x.jpg'', url = []\<rparr>),
          (''two'',
           \<lparr>filename = ''/../x.jpg'', size_p = 50, type_p = ''image/jpeg'', contents = None,
            uri = ''/app/temp_uploads/x.jpg'', url = []\<rparr>)]\<rparr>,
      \<lparr>uuid_calls = 2, date_calls = 0,
       trace =
         [ArrayBuffer (jpeg ''/../x.jpg'' 50), WriteFile ''/app/temp_uploads/x.jpg'' ''data'',
          ArrayBuffer (jpeg ''/../x.jpg'' 50), WriteFile ''/app/temp_uploads/x.jpg'' ''data'',
          Next, Next]\<rparr>)"
  by code_simp

text \<open>
  Claim C7, as amended: an accepted file whose name contains no slash, processed with
  \<open>saveFile = false\<close> on a host whose working directory is in normal form and whose
  identifiers contain no slash, gets the empty \<open>url\<close> and the \<open>uri\<close>
  \<open>{temporary directory}/{unique-id}_{original filename}\<close>; two such files with the same
  name and different identifiers get different \<open>uri\<close> values.
\<close>

theorem C7_temporary_path:
  assumes "normal_absolute (cwd e)"
    and "accepted (options this) f" and "\<not> saveFile (options this)"
    and "CHR ''/'' \<notin> set (randomUUID e (uuid_calls w))" and "CHR ''/'' \<notin> set (name_f f)"
    and "writeFile_ok e (layout_temp e (randomUUID e (uuid_calls w)) (name_f f))"
    and "accepted (options this') g" and "\<not> saveFile (options this')"
    and "CHR ''/'' \<notin> set (randomUUID e (uuid_calls w'))" and "CHR ''/'' \<notin> set (name_f g)"
    and "writeFile_ok e (layout_temp e (randomUUID e (uuid_calls w')) (name_f g))"
  shows "\<exists>pf1 w1 pf2 w2.
           processFiles_step e f pf this w = (Inr pf1, this, w1)
         \<and> processFiles_step e g pf' this' w' = (Inr pf2, this', w2)
         \<and> url pf1 = [] \<and> uri pf1 = layout_temp e (randomUUID e (uuid_calls w)) (name_f f)
         \<and> url pf2 = [] \<and> uri pf2 = layout_temp e (randomUUID e (uuid_calls w')) (name_f g)
         \<and> (if name_f f = name_f g \<and> randomUUID e (uuid_calls w) \<noteq> randomUUID e (uuid_calls w')
            then uri pf1 \<noteq> uri pf2 else True)"
proof -
  from step_temporary [OF assms(2,3,1,4,5,6), of pf] obtain pf1 w1 where
    1: "processFiles_step e f pf this w = (Inr pf1, this, w1)" "url pf1 = []"
       "uri pf1 = layout_temp e (randomUUID e (uuid_calls w)) (name_f f)" by blast
  from step_temporary [OF assms(7,8,1,9,10,11), of pf'] obtain pf2 w2 where
    2: "processFiles_step e g pf' this' w' = (Inr pf2, this', w2)" "url pf2 = []"
       "uri pf2 = layout_temp e (randomUUID e (uuid_calls w')) (name_f g)" by blast
  have "uri pf1 \<noteq> uri pf2"
    if "name_f f = name_f g" and "randomUUID e (uuid_calls w) \<noteq> randomUUID e (uuid_calls w')"
    using that 1(3) 2(3) by (simp add: layout_temp_def)
  with 1 2 show ?thesis by auto
qed

text \<open>Witness for C7: two files named \<open>a.jpg\<close>, processed with the first and with the
  second identifier of the host.\<close>

theorem C7_temporary_path_witness:
  "normal_absolute (cwd host)
   \<and> accepted (options temp_uploader) (jpeg ''a.jpg'' 50)
   \<and> \<not> saveFile (options temp_uploader)
   \<and> CHR ''/'' \<notin> set (randomUUID host (uuid_calls idle))
   \<and> CHR ''/'' \<notin> set (name_f (jpeg ''a.jpg'' 50))
   \<and> writeFile_ok host (layout_temp host (randomUUID host (uuid_calls idle)) (name_f (jpeg ''a.jpg'' 50)))
   \<and> CHR ''/'' \<notin> set (randomUUID host (uuid_calls (idle\<lparr>uuid_calls := 1\<rparr>)))
   \<and> writeFile_ok host (layout_temp host (randomUUID host (uuid_calls (idle\<lparr>uuid_calls := 1\<rparr>)))
         (name_f (jpeg ''a.jpg'' 50)))
   \<and> randomUUID host (uuid_calls idle) \<noteq> randomUUID host (uuid_calls (idle\<lparr>uuid_calls := 1\<rparr>))
   \<and> layout_temp host (randomUUID host (uuid_calls idle)) (name_f (jpeg ''a.jpg'' 50))
       = ''/app/temp_uploads/5b053289-28b2-4233-ae0c-09319f568000_a.jpg''
   \<and> layout_temp host (randomUUID host (uuid_calls (idle\<lparr>uuid_calls := 1\<rparr>))) (name_f (jpeg ''a.jpg'' 50))
       = ''/app/temp_uploads/5b053289-28b2-4233-ae0c-09319f568001_a.jpg''
   \<and> (\<exists>pf1 w1 pf2 w2.
         processFiles_step host (jpeg ''a.jpg'' 50)
           \<lparr>filename = [], size_p = 0, type_p = [], contents = None, uri = [], url = []\<rparr>
           temp_uploader idle = (Inr pf1, temp_uploader, w1)
       \<and> processFiles_step host (jpeg ''a.jpg'' 50)
           \<lparr>filename = [], size_p = 0, type_p = [], contents = None, uri = [], url = []\<rparr>
           temp_uploader (idle\<lparr>uuid_calls := 1\<rparr>) = (Inr pf2, temp_uploader, w2)
       \<and> url pf1 = [] \<and> uri pf1 = ''/app/temp_uploads/5b053289-28b2-4233-ae0c-09319f568000_a.jpg''
       \<and> url pf2 = [] \<and> uri pf2 = ''/app/temp_uploads/5b053289-28b2-4233-ae0c-09319f568001_a.jpg''
       \<and> uri pf1 \<noteq> uri pf2)"
proof -
  let ?f = "jpeg ''a.jpg'' 50"
  let ?init = "\<lparr>filename = [], size_p = 0, type_p = [], contents = None, uri = [], url = []\<rparr>"
  let ?w' = "idle\<lparr>uuid_calls := 1\<rparr>"
  have 1: "normal_absolute (cwd host)" by code_simp
  have 2: "accepted (options temp_uploader) ?f" by code_simp
  have 3: "\<not> saveFile (options temp_uploader)" by code_simp
  have 4: "CHR ''/'' \<notin> set (randomUUID host (uuid_calls idle))" by code_simp
  have 5: "CHR ''/'' \<notin> set (name_f ?f)" by code_simp
  have 6: "writeFile_ok host (layout_temp host (randomUUID host (uuid_calls idle)) (name_f ?f))"
    by (simp add: host_def)
  have 7: "CHR ''/'' \<notin> set (randomUUID host (uuid_calls ?w'))" by code_simp
  have 8: "writeFile_ok host (layout_temp host (randomUUID host (uuid_calls ?w')) (name_f ?f))"
    by (simp add: host_def)
  have 9: "randomUUID host (uuid_calls idle) \<noteq> randomUUID host (uuid_calls ?w')" by code_simp
  have p1: "layout_temp host (randomUUID host (uuid_calls idle)) (name_f ?f)
       = ''/app/temp_uploads/5b053289-28b2-4233-ae0c-09319f568000_a.jpg''" by code_simp
  have p2: "layout_temp host (randomUUID host (uuid_calls ?w')) (name_f ?f)
       = ''/app/temp_uploads/5b053289-28b2-4233-ae0c-09319f568001_a.jpg''" by code_simp
  from C7_temporary_path [OF 1 2 3 4 5 6 2 3 7 5 8, of ?init ?init] 9
  have c: "\<exists>pf1 w1 pf2 w2.
         processFiles_step host ?f ?init temp_uploader idle = (Inr pf1, temp_uploader, w1)
       \<and> processFiles_step host ?f ?init temp_uploader ?w' = (Inr pf2, temp_uploader, w2)
       \<and> url pf1 = [] \<and> uri pf1 = ''/app/temp_uploads/5b053289-28b2-4233-ae0c-09319f568000_a.jpg''
       \<and> url pf2 = [] \<and> uri pf2 = ''/app/temp_uploads/5b053289-28b2-4233-ae0c-09319f568001_a.jpg''
       \<and> uri pf1 \<noteq> uri pf2"
    unfolding p1 p2 by (simp only: simp_thms if_True)
  show ?thesis by (intro conjI 1 2 3 4 5 6 7 8 9 p1 p2 c)
qed




section \<open>After the loop (claims C9 and C10)\<close>

lemma middleware_validation_failure:
  assumes "precondition_error this r = None" and "formData r = Inr entries"
    and "process_entries e entries this w = (None, this1, w1)"
    and "validationErrors this1 \<noteq> []"
  shows "middleware e r this w =
           (None, this1,
            w1\<lparr>trace := trace w1
               @ [OnError (Error (aggregated_message (validationErrors this1))), Next]\<rparr>)"
  using assms by (simp add: middleware_def try_block_def)

lemma middleware_success:
  assumes "precondition_error this r = None" and "formData r = Inr entries"
    and "process_entries e entries this w = (None, this1, w1)"
    and "validationErrors this1 = []"
  shows "middleware e r this w =
           (Some (result_data this1), this1, w1\<lparr>trace := trace w1 @ [Next, Next]\<rparr>)"
  using assms by (simp add: middleware_def try_block_def)

lemma saveFileToDisk_Next:
  "saveFileToDisk e this f w = (r, w1) \<Longrightarrow> count_list (trace w1) Next = count_list (trace w) Next"
  by (auto simp: saveFileToDisk_def Let_def split: if_splits)

lemma step_Next:
  "processFiles_step e f pf this w = (r, this1, w1) \<Longrightarrow>
   count_list (trace w1) Next = count_list (trace w) Next"
  by (auto simp: processFiles_step_def Let_def split: if_splits prod.splits sum.splits
      dest: saveFileToDisk_Next)

lemma loop_Next:
  "processFiles_loop e files pf this w = (r, this1, w1) \<Longrightarrow>
   count_list (trace w1) Next = count_list (trace w) Next"
proof (induction files arbitrary: pf this w)
  case Nil
  then show ?case by simp
next
  case (Cons f files)
  obtain r0 this0 w0 where s: "processFiles_step e f pf this w = (r0, this0, w0)"
    by (cases "processFiles_step e f pf this w") auto
  show ?case
  proof (cases r0)
    case (Inl err)
    with Cons.prems s step_Next [OF s] show ?thesis by simp
  next
    case (Inr pf1)
    with Cons.prems s have "processFiles_loop e files pf1 this0 w0 = (r, this1, w1)" by simp
    from Cons.IH [OF this] step_Next [OF s] show ?thesis by simp
  qed
qed

lemma processFiles_Next:
  "processFiles e files this w = (r, this1, w1) \<Longrightarrow>
   count_list (trace w1) Next = count_list (trace w) Next"
  unfolding processFiles_def by (rule loop_Next)

lemma entries_Next:
  "process_entries e entries this w = (r, this1, w1) \<Longrightarrow>
   count_list (trace w1) Next = count_list (trace w) Next"
proof (induction entries arbitrary: this w)
  case Nil
  then show ?case by simp
next
  case (Cons entry rest)
  obtain key v where entry: "entry = (key, v)" by (cases entry)
  have call: "count_list (trace w1) Next = count_list (trace w) Next"
    if s: "processFiles e files this w = (r0, this0, w0)"
      and c: "(case (r0, this0, w0) of
                 (Inl err, t, x) \<Rightarrow> (Some err, t, x)
               | (Inr pf, t, x) \<Rightarrow>
                   process_entries e rest (t\<lparr>result_data := AList.update key pf (result_data t)\<rparr>) x)
              = (r, this1, w1)"
    for files r0 this0 w0
  proof (cases r0)
    case (Inl err)
    with c processFiles_Next [OF s] show ?thesis by simp
  next
    case (Inr pf)
    with c have "process_entries e rest (this0\<lparr>result_data := AList.update key pf (result_data this0)\<rparr>) w0
                   = (r, this1, w1)" by simp
    from Cons.IH [OF this] processFiles_Next [OF s] show ?thesis by simp
  qed
  show ?case
  proof (cases v)
    case (FileValue f)
    obtain r0 this0 w0 where s: "processFiles e [f] this w = (r0, this0, w0)"
      by (cases "processFiles e [f] this w") auto
    with Cons.prems entry FileValue show ?thesis by (intro call [OF s]) simp
  next
    case (ArrayValue items)
    show ?thesis
    proof (cases "length (files_of items) > 0")
      case False
      with Cons.prems entry ArrayValue have "process_entries e rest this w = (r, this1, w1)" by simp
      from Cons.IH [OF this] show ?thesis .
    next
      case True
      obtain r0 this0 w0 where s: "processFiles e (files_of items) this w = (r0, this0, w0)"
        by (cases "processFiles e (files_of items) this w") auto
      with True Cons.prems entry ArrayValue show ?thesis by (intro call [OF s]) simp
    qed
  next
    case OtherValue
    with Cons.prems entry have "process_entries e rest this w = (r, this1, w1)" by simp
    from Cons.IH [OF this] show ?thesis .
  qed
qed

text \<open>On a host whose file system never fails the loop over the form always runs to its
  end.\<close>

lemma saveFileToDisk_complete:
  assumes "\<forall>p. ensureDir_ok e p" and "\<forall>p. writeFile_ok e p"
  shows "\<exists>p w1. saveFileToDisk e this f w = (Inr p, w1)"
  using assms by (simp add: saveFileToDisk_def Let_def)

lemma step_complete:
  assumes "\<forall>p. ensureDir_ok e p" and "\<forall>p. writeFile_ok e p"
  shows "\<exists>pf1 this1 w1. processFiles_step e f pf this w = (Inr pf1, this1, w1)"
proof (cases "accepted (options this) f")
  case True
  obtain p w1 where "saveFileToDisk e this f
      (if readFile (options this) then w\<lparr>trace := trace w @ [ArrayBuffer f]\<rparr> else w) = (Inr p, w1)"
    using saveFileToDisk_complete [OF assms] by blast
  with assms(2) show ?thesis
    by (simp add: step_accepted [OF True] Let_def)
next
  case False
  then show ?thesis
    using step_extension_rejected [of this f e pf w] step_size_rejected [of this f e pf w]
    by (cases "extension_rejected (options this) f") (auto simp: accepted_def)
qed

lemma loop_complete:
  assumes "\<forall>p. ensureDir_ok e p" and "\<forall>p. writeFile_ok e p"
  shows "\<exists>pf1 this1 w1. processFiles_loop e fs pf this w = (Inr pf1, this1, w1)"
proof (induction fs arbitrary: pf this w)
  case Nil
  show ?case by simp
next
  case (Cons f fs)
  obtain pf0 this0 w0 where "processFiles_step e f pf this w = (Inr pf0, this0, w0)"
    using step_complete [OF assms] by blast
  with Cons.IH [of pf0 this0 w0] show ?case by simp
qed

lemma entries_complete:
  assumes "\<forall>p. ensureDir_ok e p" and "\<forall>p. writeFile_ok e p"
  shows "\<exists>this1 w1. process_entries e entries this w = (None, this1, w1)"
proof (induction entries arbitrary: this w)
  case Nil
  show ?case by simp
next
  case (Cons entry rest)
  obtain key v where entry: "entry = (key, v)" by (cases entry)
  obtain pf0 this0 w0 where "processFiles e (files_in v) this w = (Inr pf0, this0, w0)"
    using loop_complete [OF assms] unfolding processFiles_def by blast
  with Cons.IH entry show ?case by (simp add: process_entries_Cons)
qed

lemma middleware_outcome:
  "\<exists>more tail. trace (snd (snd (middleware e r this w))) = trace w @ more @ tail
      \<and> list_all file_event more
      \<and> ((\<exists>err. tail = [OnError err, Next]) \<or> tail = [Next, Next])"
proof (cases "precondition_error this r")
  case (Some err)
  then have "trace (snd (snd (middleware e r this w))) = trace w @ [] @ [OnError err, Next]"
    by (simp add: middleware_def try_block_def)
  moreover have "list_all file_event []" by simp
  ultimately show ?thesis by blast
next
  case None
  show ?thesis
  proof (cases "formData r")
    case (Inl err)
    with None have "trace (snd (snd (middleware e r this w))) = trace w @ [] @ [OnError err, Next]"
      by (simp add: middleware_def try_block_def)
    moreover have "list_all file_event []" by simp
  ultimately show ?thesis by blast
  next
    case (Inr entries)
    obtain r0 this1 w1 where p: "process_entries e entries this w = (r0, this1, w1)"
      by (cases "process_entries e entries this w") auto
    from entries_grows [OF p] obtain more where
      m: "trace w1 = trace w @ more" "list_all file_event more" by blast
    show ?thesis
    proof (cases r0)
      case (Some err)
      with None Inr p m(1)
      have "trace (snd (snd (middleware e r this w))) = trace w @ more @ [OnError err, Next]"
        by (simp add: middleware_def try_block_def)
      with m(2) show ?thesis by blast
    next
      case None': None
      show ?thesis
      proof (cases "validationErrors this1 = []")
        case True
        with None None' Inr p m(1)
        have "trace (snd (snd (middleware e r this w))) = trace w @ more @ [Next, Next]"
          by (simp add: middleware_def try_block_def)
        with m(2) show ?thesis by blast
      next
        case False
        with None None' Inr p m(1)
        have "trace (snd (snd (middleware e r this w))) = trace w @ more
                @ [OnError (Error (aggregated_message (validationErrors this1))), Next]"
          by (simp add: middleware_def try_block_def)
        with m(2) show ?thesis by blast
      qed
    qed
  qed
qed

lemma join_with_spaces:
  "errs \<noteq> [] \<Longrightarrow> join_with '' '' errs = hd errs @ concat (map (\<lambda>m. '' '' @ m) (tl errs))"
proof (induction errs)
  case Nil
  then show ?case by simp
next
  case (Cons m errs)
  then show ?case by (cases errs) (simp_all add: join_with_Cons)
qed

lemma occurs_concat:
  "m \<in> set errs \<Longrightarrow> occurs m (concat (map (\<lambda>m. sep @ m) errs))"
proof (induction errs)
  case Nil
  then show ?case by simp
next
  case (Cons x errs)
  show ?case
  proof (cases "m = x")
    case True
    have "occurs m (sep @ m @ concat (map (\<lambda>m. sep @ m) errs))" by (rule occurs_append)
    with True show ?thesis by simp
  next
    case False
    with Cons have "occurs m (concat (map (\<lambda>m. sep @ m) errs))" by simp
    from occurs_appendI [OF this, of "sep @ x"] show ?thesis by simp
  qed
qed

lemma joined_names_all:
  assumes "errs \<noteq> []"
  shows "list_all (\<lambda>m. occurs m (pre @ hd errs @ concat (map (\<lambda>m. sep @ m) (tl errs)))) errs"
proof -
  obtain x xs where errs: "errs = x # xs" using assms by (cases errs) auto
  have "occurs m (pre @ x @ concat (map (\<lambda>m. sep @ m) xs))" if "m \<in> set (x # xs)" for m
  proof (cases "m = x")
    case True
    then show ?thesis by (simp add: occurs_append)
  next
    case False
    with that have "m \<in> set xs" by simp
    from occurs_appendI [OF occurs_concat [OF this, of sep], of "pre @ x"] show ?thesis by simp
  qed
  then show ?thesis unfolding errs by (simp add: list_all_iff)
qed

text \<open>
  Claim C9 as stated fails when a write fails after a validation error was collected:
  on a full disk, \<open>a.jpg\<close> of 5000 bytes leaves its message on the error list, the write
  of \<open>b.jpg\<close> then throws, and \<open>onError\<close> gets the failure of the file system; no
  aggregated error is ever raised.
\<close>

theorem C9_counterexample:
  "precondition_error jpg_uploader
     (upload [(''photo'', FileValue (jpeg ''a.jpg'' 5000)), (''doc'', FileValue (jpeg ''b.jpg'' 50))])
     = None
   \<and> middleware full_disk
       (upload [(''photo'', FileValue (jpeg ''a.jpg'' 5000)), (''doc'', FileValue (jpeg ''b.jpg'' 50))])
       jpg_uploader idle =
     (None,
      jpg_uploader
        \<lparr>validationErrors :=
           [''File size exceeds limit. File: a.jpg, Size: 5000 bytes, Limit: 1000 bytes. ''],
         result_data := [(''photo'',
           \<lparr>filename = ''a.jpg'', size_p = 5000, type_p = ''image/jpeg'', contents = None,
            uri = [], url = []\<rparr>)]\<rparr>,
      \<lparr>uuid_calls = 1, date_calls = 1,
       trace =
         [EnsureDir ''/app/uploads/2025/01/26/18/23/08/5b053289-28b2-4233-ae0c-09319f568000'',
          ArrayBuffer (jpeg ''b.jpg'' 50),
          OnError (IOFailure
            ''/app/uploads/2025/01/26/18/23/08/5b053289-28b2-4233-ae0c-09319f568000/b.jpg''),
          Next]\<rparr>)"
  by code_simp

text \<open>
  Claim C9, as amended: when the preconditions pass, no failure of the file system
  interrupts the loop over the form, and the error list is not empty at its end, one
  error is thrown whose message is \<open>Unprocessable Entity: \<close> followed by all the
  messages, in order, with a space between them; every message occurs in it; it is handed
  to \<open>onError\<close>, the only call of \<open>onError\<close> of the request, and \<open>next()\<close> is called
  after that. Whatever the request, what the middleware does is to read and store files
  and then either to call \<open>onError\<close> once and \<open>next()\<close> once, or to call \<open>next()\<close>
  twice; the two callbacks are taken to return.
\<close>

theorem C9_aggregated_error_then_next:
  assumes "precondition_error this r = None" and "formData r = Inr entries"
    and "process_entries e entries this w = (None, this1, w1)"
    and "validationErrors this1 \<noteq> []"
  shows "middleware e r this w =
           (None, this1,
            w1\<lparr>trace := trace w1
               @ [OnError (Error (''Unprocessable Entity: '' @ hd (validationErrors this1)
                     @ concat (map (\<lambda>m. '' '' @ m) (tl (validationErrors this1))))),
                  Next]\<rparr>)
         \<and> list_all (\<lambda>m. occurs m (''Unprocessable Entity: '' @ hd (validationErrors this1)
                     @ concat (map (\<lambda>m. '' '' @ m) (tl (validationErrors this1)))))
             (validationErrors this1)
         \<and> (\<exists>more. trace w1 = trace w @ more \<and> list_all file_event more)
         \<and> (\<forall>e' r' this' w'. \<exists>more tail.
               trace (snd (snd (middleware e' r' this' w'))) = trace w' @ more @ tail
             \<and> list_all file_event more
             \<and> ((\<exists>err. tail = [OnError err, Next]) \<or> tail = [Next, Next]))"
proof -
  have 1: "middleware e r this w =
           (None, this1,
            w1\<lparr>trace := trace w1
               @ [OnError (Error (''Unprocessable Entity: '' @ hd (validationErrors this1)
                     @ concat (map (\<lambda>m. '' '' @ m) (tl (validationErrors this1))))),
                  Next]\<rparr>)"
    using middleware_validation_failure [OF assms]
    by (simp add: aggregated_message_def join_with_spaces [OF assms(4)])
  note 2 = joined_names_all [OF assms(4), of "''Unprocessable Entity: ''" "'' ''"]
  from entries_grows [OF assms(3)]
  have 3: "\<exists>more. trace w1 = trace w @ more \<and> list_all file_event more" by blast
  from middleware_outcome
  have 4: "\<forall>e' r' this' w'. \<exists>more tail.
               trace (snd (snd (middleware e' r' this' w'))) = trace w' @ more @ tail
             \<and> list_all file_event more
             \<and> ((\<exists>err. tail = [OnError err, Next]) \<or> tail = [Next, Next])" by blast
  show ?thesis by (intro conjI 1 2 3 4)
qed

text \<open>Witness for C9: two files above the limit of 1000 bytes; the two messages are
  joined in one error.\<close>

theorem C9_aggregated_error_then_next_witness:
  "precondition_error jpg_uploader
     (upload [(''photo'', FileValue (jpeg ''a.jpg'' 5000)), (''doc'', FileValue (jpeg ''b.jpg'' 6000))])
     = None
   \<and> formData (upload [(''photo'', FileValue (jpeg ''a.jpg'' 5000)), (''doc'', FileValue (jpeg ''b.jpg'' 6000))])
       = Inr [(''photo'', FileValue (jpeg ''a.jpg'' 5000)), (''doc'', FileValue (jpeg ''b.jpg'' 6000))]
   \<and> process_entries host
       [(''photo'', FileValue (jpeg ''a.jpg'' 5000)), (''doc'', FileValue (jpeg ''b.jpg'' 6000))]
       jpg_uploader idle =
       (None,
        jpg_uploader
          \<lparr>validationErrors :=
             [''File size exceeds limit. File: a.jpg, Size: 5000 bytes, Limit: 1000 bytes. '',
              ''File size exceeds limit. File: b.jpg, Size: 6000 bytes, Limit: 1000 bytes. ''],
           result_data :=
             [(''photo'',
               \<lparr>filename = ''a.jpg'', size_p = 5000, type_p = ''image/jpeg'', contents = None,
                uri = [], url = []\<rparr>),
              (''doc'',
               \<lparr>filename = ''b.jpg'', size_p = 6000, type_p = ''image/jpeg'', contents = None,
                uri = [], url = []\<rparr>)]\<rparr>,
        idle)
   \<and> middleware host
       (upload [(''photo'', FileValue (jpeg ''a.jpg'' 5000)), (''doc'', FileValue (jpeg ''b.jpg'' 6000))])
       jpg_uploader idle =
       (None,
        jpg_uploader
          \<lparr>validationErrors :=
             [''File size exceeds limit. File: a.jpg, Size: 5000 bytes, Limit: 1000 bytes. '',
              ''File size exceeds limit. File: b.jpg, Size: 6000 bytes, Limit: 1000 bytes. ''],
           result_data :=
             [(''photo'',
               \<lparr>filename = ''a.jpg'', size_p = 5000, type_p = ''image/jpeg'', contents = None,
                uri = [], url = []\<rparr>),
              (''doc'',
               \<lparr>filename = ''b.jpg'', size_p = 6000, type_p = ''image/jpeg'', contents = None,
                uri = [], url = []\<rparr>)]\<rparr>,
        \<lparr>uuid_calls = 0, date_calls = 0,
         trace =
           [OnError (Error
              ''Unprocessable Entity: File size exceeds limit. File: a.jpg, Size: 5000 bytes, Limit: 1000 bytes.  File size exceeds limit. File: b.jpg, Size: 6000 bytes, Limit: 1000 bytes. ''),
            Next]\<rparr>)"
proof -
  let ?es = "[(''photo'', FileValue (jpeg ''a.jpg'' 5000)), (''doc'', FileValue (jpeg ''b.jpg'' 6000))]"
  let ?t = "jpg_uploader
          \<lparr>validationErrors :=
             [''File size exceeds limit. File: a.jpg, Size: 5000 bytes, Limit: 1000 bytes. '',
              ''File size exceeds limit. File: b.jpg, Size: 6000 bytes, Limit: 1000 bytes. ''],
           result_data :=
             [(''photo'',
               \<lparr>filename = ''a.jpg'', size_p = 5000, type_p = ''image/jpeg'', contents = None,
                uri = [], url = []\<rparr>),
              (''doc'',
               \<lparr>filename = ''b.jpg'', size_p = 6000, type_p = ''image/jpeg'', contents = None,
                uri = [], url = []\<rparr>)]\<rparr>"
  have 1: "precondition_error jpg_uploader (upload ?es) = None" by code_simp
  have 2: "formData (upload ?es) = Inr ?es" by (simp add: upload_def)
  have 3: "process_entries host ?es jpg_uploader idle = (None, ?t, idle)" by code_simp
  have 4: "validationErrors ?t \<noteq> []" by simp
  from C9_aggregated_error_then_next [OF 1 2 3 4]
  have 5: "middleware host (upload ?es) jpg_uploader idle =
       (None, ?t, idle\<lparr>trace := trace idle
           @ [OnError (Error (''Unprocessable Entity: '' @ hd (validationErrors ?t)
                     @ concat (map (\<lambda>m. '' '' @ m) (tl (validationErrors ?t))))), Next]\<rparr>)"
    by (rule conjunct1)
  show ?thesis using 5 by (intro conjI 1 2 3) (simp add: idle_def)
qed

text \<open>
  Claim C10: a request that passes the preconditions, whose loop runs to its end and
  leaves the error list empty, gets the result attached to the context and \<open>next()\<close>
  called twice, once at the end of the \<open>try\<close> block and once after the \<open>catch\<close>; the
  loop itself never calls it.
\<close>

theorem C10_next_called_twice:
  assumes "precondition_error this r = None" and "formData r = Inr entries"
    and "process_entries e entries this w = (None, this1, w1)"
    and "validationErrors this1 = []"
  shows "middleware e r this w =
           (Some (result_data this1), this1, w1\<lparr>trace := trace w1 @ [Next, Next]\<rparr>)
         \<and> count_list (trace (snd (snd (middleware e r this w)))) Next
             = count_list (trace w) Next + 2"
  using middleware_success [OF assms] entries_Next [OF assms(3)] by simp

text \<open>Witness for C10: the scenario of \<open>a.jpg\<close> of 500 bytes, which is accepted.\<close>

theorem C10_next_called_twice_witness:
  "precondition_error jpg_uploader (upload [(''photo'', FileValue (jpeg ''a.jpg'' 500))]) = None
   \<and> formData (upload [(''photo'', FileValue (jpeg ''a.jpg'' 500))])
       = Inr [(''photo'', FileValue (jpeg ''a.jpg'' 500))]
   \<and> process_entries host [(''photo'', FileValue (jpeg ''a.jpg'' 500))] jpg_uploader idle =
       (None,
        jpg_uploader
          \<lparr>result_data := [(''photo'',
             \<lparr>filename = ''a.jpg'', size_p = 500, type_p = ''image/jpeg'', contents = None,
              uri = ''/app/uploads/2025/01/26/18/23/08/5b053289-28b2-4233-ae0c-09319f568000/a.jpg'',
              url = ''/uploads/2025/01/26/18/23/08/5b053289-28b2-4233-ae0c-09319f568000/a.jpg''\<rparr>)]\<rparr>,
        \<lparr>uuid_calls = 1, date_calls = 1,
         trace =
           [EnsureDir ''/app/uploads/2025/01/26/18/23/08/5b053289-28b2-4233-ae0c-09319f568000'',
            ArrayBuffer (jpeg ''a.jpg'' 500),
            WriteFile ''/app/uploads/2025/01/26/18/23/08/5b053289-28b2-4233-ae0c-09319f568000/a.jpg''
              ''data'']\<rparr>)
   \<and> count_list (trace (snd (snd
         (middleware host (upload [(''photo'', FileValue (jpeg ''a.jpg'' 500))]) jpg_uploader idle)))) Next
       = count_list (trace idle) Next + 2
   \<and> count_list (trace idle) Next = 0"
proof -
  let ?es = "[(''photo'', FileValue (jpeg ''a.jpg'' 500))]"
  let ?t = "jpg_uploader
          \<lparr>result_data := [(''photo'',
             \<lparr>filename = ''a.jpg'', size_p = 500, type_p = ''image/jpeg'', contents = None,
              uri = ''/app/uploads/2025/01/26/18/23/08/5b053289-28b2-4233-ae0c-09319f568000/a.jpg'',
              url = ''/uploads/2025/01/26/18/23/08/5b053289-28b2-4233-ae0c-09319f568000/a.jpg''\<rparr>)]\<rparr>"
  let ?w = "\<lparr>uuid_calls = 1, date_calls = 1,
         trace =
           [EnsureDir ''/app/uploads/2025/01/26/18/23/08/5b053289-28b2-4233-ae0c-09319f568000'',
            ArrayBuffer (jpeg ''a.jpg'' 500),
            WriteFile ''/app/uploads/2025/01/26/18/23/08/5b053289-28b2-4233-ae0c-09319f568000/a.jpg''
              ''data'']\<rparr>"
  have 1: "precondition_error jpg_uploader (upload ?es) = None" by code_simp
  have 2: "formData (upload ?es) = Inr ?es" by (simp add: upload_def)
  have 3: "process_entries host ?es jpg_uploader idle = (None, ?t, ?w)" by code_simp
  have 4: "validationErrors ?t = []" by code_simp
  have 5: "count_list (trace idle) Next = 0" by (simp add: idle_def)
  from C10_next_called_twice [OF 1 2 3 4]
  have 6: "count_list (trace (snd (snd (middleware host (upload ?es) jpg_uploader idle)))) Next
       = count_list (trace idle) Next + 2"
    by (rule conjunct2)
  show ?thesis by (intro conjI 1 2 3 5 6)
qed

end
